theory Spec2Isabelle
  imports Main
begin

section \<open>Errors and fallible operations\<close>

text \<open>
  A JavaScript exception is an \<open>Error\<close> object carrying a message. Every
  \<open>throw\<close> of the sources is the left injection of a sum; every awaited call that
  talks to the RPC endpoint takes the state of the outside world and returns the new
  one next to its outcome.
\<close>

datatype error = Error string

type_synonym ('s, 'a) operation = "'s \<Rightarrow> (error + 'a) \<times> 's"

section \<open>utils.ts: retryOperation\<close>

text \<open>
  \<^verbatim>\<open>for (let i = 0; i < maxRetries; i++) {
    try { return await operation(); }
    catch (error) { if (i === maxRetries - 1) throw error; ...sleep(delay)... } }
  throw new Error('Max retries exceeded');\<close>
  The loop variable \<open>i\<close> is the third argument of \<open>retry_loop\<close>. Sleeping for
  \<open>delay\<close> milliseconds changes nothing the model observes, so \<open>delay\<close> is carried
  and ignored.
\<close>

function retry_loop :: "('s, 'a) operation \<Rightarrow> int \<Rightarrow> int \<Rightarrow> 's \<Rightarrow> (error + 'a) \<times> 's" where
  "retry_loop operation maxRetries i s =
     (if i < maxRetries then
        (case operation s of
           (Inr v, s') \<Rightarrow> (Inr v, s')
         | (Inl e, s') \<Rightarrow>
             if i = maxRetries - 1 then (Inl e, s')
             else retry_loop operation maxRetries (i + 1) s')
      else (Inl (Error ''Max retries exceeded''), s))"
  by pat_completeness auto
termination
  by (relation "measure (\<lambda>(operation, maxRetries, i, s). nat (maxRetries - i))") auto

definition retryOperation :: "('s, 'a) operation \<Rightarrow> int \<Rightarrow> int \<Rightarrow> 's \<Rightarrow> (error + 'a) \<times> 's" where
  "retryOperation operation maxRetries delay s = retry_loop operation maxRetries 0 s"

text \<open>
  An operation instrumented with a call counter: the counter is part of the state the
  operation runs in, and each invocation adds one to it.
\<close>

definition counting :: "('s, 'a) operation \<Rightarrow> ('s \<times> nat, 'a) operation" where
  "counting operation = (\<lambda>(s, n). case operation s of (r, s') \<Rightarrow> (r, (s', Suc n)))"

text \<open>
  A scripted operation for concrete runs: the state is the list of outcomes still to
  come, and each invocation consumes the first of them.
\<close>

fun scripted :: "((error + 'a) list, 'a) operation" where
  "scripted [] = (Inl (Error ''script exhausted''), [])"
| "scripted (r # rs) = (r, rs)"

text \<open>An endpoint that is never reachable: every call fails and changes nothing.\<close>

definition offline :: "('s, 'a) operation" where
  "offline s = (Inl (Error ''network unreachable''), s)"

section \<open>utils.ts: isValidTimestamp\<close>

text \<open>
  \<^verbatim>\<open>return timestamp > 1420000000 && timestamp < 9999999999;\<close>
  The argument is the result of \<open>parseInt\<close>; both constants and every Unix time are far
  below \<open>2^53\<close>, where a JavaScript number is an exact integer. \<open>NaN\<close> fails both
  comparisons and takes the same branch as an out-of-range integer.
\<close>

definition isValidTimestamp :: "int \<Rightarrow> bool" where
  "isValidTimestamp timestamp \<longleftrightarrow> timestamp > 1420000000 \<and> timestamp < 9999999999"

section \<open>block-finder.ts\<close>

text \<open>
  \<open>BlockInfo\<close> of utils.ts. The provider's \<open>getBlock\<close> answers with a block or with
  \<open>null\<close> (a height above the chain head), or it throws; of the block it returns the
  code reads \<open>number\<close>, \<open>timestamp\<close> and \<open>hash\<close> only.
\<close>

record BlockInfo =
  number :: int
  timestamp :: int
  hash :: string

definition maxIterations :: nat where
  "maxIterations = 50"

text \<open>
  The binary search of \<open>findBlockByTimestamp\<close>. The loop variables \<open>low\<close>, \<open>high\<close>,
  \<open>result\<close> and \<open>iterations\<close> are arguments; \<open>Math.floor((low + high) / 2)\<close> is
  integer division, which rounds towards minus infinity as \<open>Math.floor\<close> does. A fetch
  that throws after its retries, and a \<open>null\<close> block (turned into a throw by the code),
  both reach the \<open>catch\<close>, which leaves the loop with the result found so far. The
  verbose trace is console output only and is not modelled.

  Heights are JavaScript numbers, that is doubles, and are integers here. The two
  agree as long as every number the loop forms is an integer of magnitude at most
  \<open>2^53\<close>, where doubles are exact: for a range with \<open>0 \<le> low\<close> and
  \<open>high < 2^52\<close> the sum \<open>low + high\<close> stays below \<open>2^53\<close>, and \<open>mid + 1\<close> and
  \<open>mid - 1\<close> stay in that range. From \<open>2^53\<close> on the sums of the code round, and
  the integer arithmetic below no longer describes the midpoints it computes; the
  theorem on the block that is found is stated for heights below \<open>2^52\<close>.
\<close>

function findBlock_loop ::
  "(int \<Rightarrow> ('s, BlockInfo option) operation) \<Rightarrow> int \<Rightarrow> int \<Rightarrow> int \<Rightarrow>
     BlockInfo option \<Rightarrow> nat \<Rightarrow> 's \<Rightarrow> BlockInfo option \<times> 's" where
  "findBlock_loop getBlock targetTimestamp low high result iterations s =
     (if low \<le> high \<and> iterations < maxIterations then
        (let mid = (low + high) div 2 in
         case retryOperation (getBlock mid) 3 1000 s of
           (Inl e, s') \<Rightarrow> (result, s')
         | (Inr None, s') \<Rightarrow> (result, s')
         | (Inr (Some block), s') \<Rightarrow>
             if timestamp block < targetTimestamp then
               findBlock_loop getBlock targetTimestamp (mid + 1) high result (iterations + 1) s'
             else
               findBlock_loop getBlock targetTimestamp low (mid - 1)
                 (Some \<lparr>number = number block, timestamp = timestamp block, hash = hash block\<rparr>)
                 (iterations + 1) s')
      else (result, s))"
  by pat_completeness auto
termination
  by (relation "measure (\<lambda>(getBlock, targetTimestamp, low, high, result, iterations, s).
                           maxIterations - iterations)") auto

declare findBlock_loop.simps [simp del]

definition findBlockByTimestamp ::
  "(int \<Rightarrow> ('s, BlockInfo option) operation) \<Rightarrow> int \<Rightarrow> int \<Rightarrow> int \<Rightarrow> 's \<Rightarrow>
     BlockInfo option \<times> 's" where
  "findBlockByTimestamp getBlock targetTimestamp low high s =
     findBlock_loop getBlock targetTimestamp low high None 0 s"

text \<open>
  The \<open>find\<close> command. \<open>process.exit(1)\<close> ends the run at once; an error thrown
  inside the \<open>try\<close> is printed by the \<open>catch\<close>, which exits with status 1 too. The
  outcome carries the message in both cases. \<open>isValidAddress\<close> (config.ts) wraps the
  checksum validation of the ethers library and is a parameter; so are the three
  provider calls. An absent and an empty \<open>--address\<close> are both falsy.
\<close>

datatype find_outcome = Exit1 string | NotFound | Found BlockInfo "int option"

definition find_action ::
  "('s, BlockInfo option) operation \<Rightarrow> (int \<Rightarrow> ('s, BlockInfo option) operation) \<Rightarrow>
     (string \<Rightarrow> int \<Rightarrow> ('s, int) operation) \<Rightarrow> (string \<Rightarrow> bool) \<Rightarrow>
     int \<Rightarrow> string option \<Rightarrow> 's \<Rightarrow> find_outcome \<times> 's" where
  "find_action getLatest getBlock getBalance isValidAddress targetTimestamp address s =
     (if \<not> isValidTimestamp targetTimestamp then
        (Exit1 ''Invalid timestamp. Must be a valid Unix timestamp.'', s)
      else
        case retryOperation getLatest 3 1000 s of
          (Inl (Error msg), s1) \<Rightarrow> (Exit1 msg, s1)
        | (Inr None, s1) \<Rightarrow> (Exit1 ''Failed to get current block'', s1)
        | (Inr (Some currentBlock), s1) \<Rightarrow>
            (case findBlockByTimestamp getBlock targetTimestamp 0 (number currentBlock) s1 of
               (None, s2) \<Rightarrow> (NotFound, s2)
             | (Some result, s2) \<Rightarrow>
                 (case address of
                    None \<Rightarrow> (Found result None, s2)
                  | Some a \<Rightarrow>
                      if a = [] then (Found result None, s2)
                      else if \<not> isValidAddress a then (Exit1 ''Invalid Ethereum address'', s2)
                      else
                        (case retryOperation (getBalance a (number result)) 3 1000 s2 of
                           (Inl (Error msg), s3) \<Rightarrow> (Exit1 msg, s3)
                         | (Inr balance, s3) \<Rightarrow> (Found result (Some balance), s3)))))"

text \<open>
  Instrumentation for the search: a provider that writes every height it is asked for
  into a log kept in the state, then answers as the wrapped provider does.
\<close>

definition logged ::
  "(int \<Rightarrow> ('s, 'a) operation) \<Rightarrow> int \<Rightarrow> ('s \<times> int list, 'a) operation" where
  "logged getBlock n = (\<lambda>(s, log). case getBlock n s of (r, s') \<Rightarrow> (r, (s', log @ [n])))"

text \<open>
  The sequence of provider calls made by a list of probes: a probe \<open>(mid, k)\<close> is \<open>k\<close>
  successive calls of \<open>getBlock\<close> at the one height \<open>mid\<close> (the attempts of one
  \<open>retryOperation\<close>).
\<close>

definition probe_calls :: "(int \<times> nat) list \<Rightarrow> int list" where
  "probe_calls probes = concat (map (\<lambda>(mid, k). replicate k mid) probes)"

text \<open>
  The specification of the resolver, in the words of the spec: scanning the heights
  \<open>low, low + 1, \<dots>, high\<close> in order, the first block whose timestamp is at least the
  target, or nothing when there is none. \<open>blk n\<close> is the block the chain holds at
  height \<open>n\<close>.
\<close>

definition earliest_block_not_before ::
  "(int \<Rightarrow> BlockInfo) \<Rightarrow> int \<Rightarrow> int \<Rightarrow> int \<Rightarrow> BlockInfo option" where
  "earliest_block_not_before blk t low high =
     map_option blk (List.find (\<lambda>b. t \<le> timestamp (blk b)) [low..high])"

text \<open>
  Chains for concrete runs: the block at height \<open>n\<close> has timestamp \<open>ts n\<close>, and the
  endpoint always answers at the first attempt. \<open>height_clock\<close> stamps every block with
  its own height; \<open>paired_clock\<close> gives each two successive blocks the same timestamp.
\<close>

definition chain_block :: "(int \<Rightarrow> int) \<Rightarrow> int \<Rightarrow> BlockInfo" where
  "chain_block ts n = \<lparr>number = n, timestamp = ts n, hash = ''0x''\<rparr>"

definition chain :: "(int \<Rightarrow> int) \<Rightarrow> int \<Rightarrow> ('s, BlockInfo option) operation" where
  "chain ts n s = (Inr (Some (chain_block ts n)), s)"

definition height_clock :: "int \<Rightarrow> int" where
  "height_clock n = n"

definition paired_clock :: "int \<Rightarrow> int" where
  "paired_clock n = 100 + 2 * (n div 2)"

section \<open>JavaScript strings and bigints\<close>

text \<open>
  \<open>BigInt.prototype.toString()\<close>: the decimal digits, most significant first, after a
  minus sign for a negative value. \<open>digit_char\<close> is applied to numbers below 10 only.
\<close>

definition digit_char :: "nat \<Rightarrow> char" where
  "digit_char d = ''0123456789'' ! d"

function nat_toString :: "nat \<Rightarrow> string" where
  "nat_toString n =
     (if n < 10 then [digit_char n] else nat_toString (n div 10) @ [digit_char (n mod 10)])"
  by pat_completeness auto
termination
  by (relation "measure id") auto

declare nat_toString.simps [simp del]

definition bigint_toString :: "int \<Rightarrow> string" where
  "bigint_toString v =
     (if v < 0 then CHR ''-'' # nat_toString (nat (- v)) else nat_toString (nat v))"

text \<open>
  The integer a decimal string denotes, which is what \<open>BigInt(s)\<close> returns for the
  strings \<open>toString\<close> produces. It is used to read the \<open>value\<close> field of a record, a
  decimal string, back as a number.
\<close>

definition decimal_nat :: "string \<Rightarrow> nat" where
  "decimal_nat ds = foldl (\<lambda>a c. 10 * a + (of_char c - 48)) 0 ds"

definition decimal_bigint :: "string \<Rightarrow> int" where
  "decimal_bigint str =
     (case str of
        c # ds \<Rightarrow> if c = CHR ''-'' then - int (decimal_nat ds) else int (decimal_nat str)
      | [] \<Rightarrow> 0)"

text \<open>
  \<open>String.prototype.toLowerCase()\<close> on the ASCII letters, which are all that a
  hexadecimal address holds; every other character is left as it is.
\<close>

definition lower_char :: "char \<Rightarrow> char" where
  "lower_char c =
     (case map_of (zip ''ABCDEFGHIJKLMNOPQRSTUVWXYZ'' ''abcdefghijklmnopqrstuvwxyz'') c of
        None \<Rightarrow> c
      | Some l \<Rightarrow> l)"

definition toLowerCase :: "string \<Rightarrow> string" where
  "toLowerCase str = map lower_char str"

text \<open>
  Truthiness of an optional string (\<open>options.from\<close>, \<open>tx.to\<close>): \<open>undefined\<close>, \<open>null\<close>
  and the empty string are falsy.
\<close>

definition truthy :: "string option \<Rightarrow> bool" where
  "truthy v = (case v of None \<Rightarrow> False | Some str \<Rightarrow> str \<noteq> [])"

section \<open>eth-transfers.ts: processBlock\<close>

text \<open>
  A transaction as the provider returns it; \<open>to\<close> is \<open>null\<close> for a contract creation.
  \<open>EthTransfer\<close> is the record of utils.ts. Its \<open>to\<close> is the value copied from
  \<open>tx.to\<close> and is kept nullable here, so that its never being \<open>null\<close> is a property of
  the code and not of the model's typing; its \<open>value\<close> is the decimal string
  \<open>tx.value.toString()\<close>.
\<close>

record Transaction =
  tx_from :: string
  tx_to :: "string option"
  tx_value :: int
  tx_hash :: string
  tx_gasLimit :: int
  tx_gasPrice :: "int option"

record EthTransfer =
  et_from :: string
  et_to :: "string option"
  et_value :: string
  et_blockNumber :: int
  et_transactionHash :: string
  et_gasUsed :: int
  et_gasPrice :: int

record TxBlock =
  transactions :: "Transaction list option"

record FetchOptions =
  opt_from :: "string option"
  opt_to :: "string option"

text \<open>
  The loop over \<open>block.transactions\<close>, whose elements are the objects the loop reads
  \<open>to\<close>, \<open>value\<close>, \<open>from\<close>, \<open>hash\<close>, \<open>gasLimit\<close> and \<open>gasPrice\<close> of. Each
  \<open>continue\<close> is the recursive call that leaves \<open>transfers\<close> as it is, in the order
  of the source. The address comparisons are made only once \<open>tx.to\<close> and the option
  are known to be truthy.
\<close>

fun processBlock_loop ::
  "FetchOptions \<Rightarrow> int \<Rightarrow> int \<Rightarrow> Transaction list \<Rightarrow> EthTransfer list \<Rightarrow> EthTransfer list" where
  "processBlock_loop options blockNumber minValueWei [] transfers = transfers"
| "processBlock_loop options blockNumber minValueWei (tx # txs) transfers =
     (if \<not> truthy (tx_to tx) then
        processBlock_loop options blockNumber minValueWei txs transfers
      else if tx_value tx = 0 then
        processBlock_loop options blockNumber minValueWei txs transfers
      else if tx_value tx < minValueWei then
        processBlock_loop options blockNumber minValueWei txs transfers
      else if truthy (opt_from options) \<and>
              toLowerCase (tx_from tx) \<noteq> toLowerCase (the (opt_from options)) then
        processBlock_loop options blockNumber minValueWei txs transfers
      else if truthy (opt_to options) \<and>
              toLowerCase (the (tx_to tx)) \<noteq> toLowerCase (the (opt_to options)) then
        processBlock_loop options blockNumber minValueWei txs transfers
      else
        processBlock_loop options blockNumber minValueWei txs
          (transfers @
             [\<lparr>et_from = tx_from tx, et_to = tx_to tx, et_value = bigint_toString (tx_value tx),
               et_blockNumber = blockNumber, et_transactionHash = tx_hash tx,
               et_gasUsed = tx_gasLimit tx,
               et_gasPrice = (case tx_gasPrice tx of None \<Rightarrow> 0 | Some p \<Rightarrow> p)\<rparr>]))"

text \<open>
  \<open>processBlock\<close>: the block is fetched with its transactions through
  \<open>retryOperation\<close>; a fetch that fails after its retries is caught and gives no
  transfers, and so do a \<open>null\<close> block and a block without a transaction list.
\<close>

definition processBlock ::
  "(int \<Rightarrow> ('s, TxBlock option) operation) \<Rightarrow> int \<Rightarrow> FetchOptions \<Rightarrow> int \<Rightarrow> 's \<Rightarrow>
     EthTransfer list \<times> 's" where
  "processBlock getBlock blockNumber options minValueWei s =
     (case retryOperation (getBlock blockNumber) 3 1000 s of
        (Inl e, s') \<Rightarrow> ([], s')
      | (Inr None, s') \<Rightarrow> ([], s')
      | (Inr (Some block), s') \<Rightarrow>
          (case transactions block of
             None \<Rightarrow> ([], s')
           | Some txs \<Rightarrow> (processBlock_loop options blockNumber minValueWei txs [], s')))"

text \<open>
  A block for concrete runs, of five transactions: a contract creation, a transfer of
  value 0, one below the threshold used with it, one from another sender, and one that
  passes every filter. \<open>serving\<close> is an endpoint that answers every request with the
  given block.
\<close>

definition sample_txs :: "Transaction list" where
  "sample_txs =
     [\<lparr>tx_from = ''0xAb'', tx_to = None, tx_value = 500, tx_hash = ''0x01'',
       tx_gasLimit = 21000, tx_gasPrice = Some 7\<rparr>,
      \<lparr>tx_from = ''0xAb'', tx_to = Some ''0xCd'', tx_value = 0, tx_hash = ''0x02'',
       tx_gasLimit = 21000, tx_gasPrice = Some 7\<rparr>,
      \<lparr>tx_from = ''0xAb'', tx_to = Some ''0xCd'', tx_value = 99, tx_hash = ''0x03'',
       tx_gasLimit = 21000, tx_gasPrice = Some 7\<rparr>,
      \<lparr>tx_from = ''0xEf'', tx_to = Some ''0xCd'', tx_value = 500, tx_hash = ''0x04'',
       tx_gasLimit = 21000, tx_gasPrice = Some 7\<rparr>,
      \<lparr>tx_from = ''0xAb'', tx_to = Some ''0xCd'', tx_value = 1200, tx_hash = ''0x05'',
       tx_gasLimit = 21000, tx_gasPrice = None\<rparr>]"

definition serving :: "'a \<Rightarrow> int \<Rightarrow> ('s, 'a option) operation" where
  "serving block n s = (Inr (Some block), s)"

definition sample_options :: FetchOptions where
  "sample_options = \<lparr>opt_from = Some ''0xAB'', opt_to = Some ''0xcd''\<rparr>"

section \<open>transfer-events.ts: decoding the logs\<close>

text \<open>
  A raw log as the provider returns it, and \<open>TransferEvent\<close> of utils.ts. The lines
  written with \<open>console.warn\<close> and \<open>console.error\<close> are recorded; progress output
  with \<open>console.log\<close> is not.
\<close>

record Log =
  lg_address :: string
  lg_topics :: "string list"
  lg_data :: string
  lg_blockNumber :: int
  lg_transactionHash :: string
  lg_index :: int

record TransferEvent =
  contractAddress :: string
  te_from :: string
  te_to :: string
  te_value :: string
  te_blockNumber :: int
  te_transactionHash :: string
  logIndex :: int
  tokenSymbol :: string
  tokenDecimals :: int

datatype console_line = Warn string | ErrorLine string error

text \<open>
  The token metadata: \<open>contract.symbol().catch(() => 'UNKNOWN')\<close> and
  \<open>contract.decimals().catch(() => 18)\<close>, joined by \<open>Promise.all\<close>. Each call has
  its own \<open>catch\<close>, so the pair never fails; the two calls are taken in the order
  they are issued.
\<close>

definition tokenInfo ::
  "(string \<Rightarrow> ('s, string) operation) \<Rightarrow> (string \<Rightarrow> ('s, int) operation) \<Rightarrow> string \<Rightarrow> 's \<Rightarrow>
     (string \<times> int) \<times> 's" where
  "tokenInfo symbol decimals address s =
     (case symbol address s of
        (r1, s1) \<Rightarrow>
          (case decimals address s1 of
             (r2, s2) \<Rightarrow>
               ((case r1 of Inl e \<Rightarrow> ''UNKNOWN'' | Inr name \<Rightarrow> name,
                 case r2 of Inl e \<Rightarrow> 18 | Inr d \<Rightarrow> d), s2)))"

text \<open>
  The body of the \<open>try\<close> for one log. \<open>Inr None\<close> is a \<open>continue\<close>, \<open>Inr (Some event)\<close>
  the event that is pushed, \<open>Inl e\<close> an exception thrown by \<open>ethers.getAddress\<close> or by
  \<open>BigInt\<close>; both are library functions and parameters here. \<open>slice(26)\<close> drops the
  first 26 characters of a topic. Empty data is the empty string or \<open>0x\<close>. The second
  component holds the warnings written.
\<close>

definition decode_log ::
  "(string \<Rightarrow> error + string) \<Rightarrow> (string \<Rightarrow> error + int) \<Rightarrow>
     (string \<Rightarrow> ('s, string) operation) \<Rightarrow> (string \<Rightarrow> ('s, int) operation) \<Rightarrow> Log \<Rightarrow> 's \<Rightarrow>
     (error + TransferEvent option) \<times> console_line list \<times> 's" where
  "decode_log getAddress BigInt symbol decimals log s =
     (if length (lg_topics log) < 3 then
        (Inr None, [Warn (''Invalid log format for tx '' @ lg_transactionHash log)], s)
      else
        case getAddress (''0x'' @ drop 26 (lg_topics log ! 1)) of
          Inl e \<Rightarrow> (Inl e, [], s)
        | Inr from \<Rightarrow>
            (case getAddress (''0x'' @ drop 26 (lg_topics log ! 2)) of
               Inl e \<Rightarrow> (Inl e, [], s)
             | Inr to \<Rightarrow>
                 if lg_data log = [] \<or> lg_data log = ''0x'' then
                   (Inr None, [Warn (''Empty data for tx '' @ lg_transactionHash log)], s)
                 else
                   (case BigInt (lg_data log) of
                      Inl e \<Rightarrow> (Inl e, [], s)
                    | Inr v \<Rightarrow>
                        (case tokenInfo symbol decimals (lg_address log) s of
                           ((name, digits), s') \<Rightarrow>
                             (Inr (Some \<lparr>contractAddress = lg_address log, te_from = from,
                                         te_to = to, te_value = bigint_toString v,
                                         te_blockNumber = lg_blockNumber log,
                                         te_transactionHash = lg_transactionHash log,
                                         logIndex = lg_index log, tokenSymbol = name,
                                         tokenDecimals = digits\<rparr>), [], s')))))"

text \<open>
  The loop \<open>for (const log of logs) { try { ... } catch (error) { console.error(...) } }\<close>:
  an exception of the body is reported and the loop goes on with the next log.
\<close>

fun process_logs ::
  "(string \<Rightarrow> error + string) \<Rightarrow> (string \<Rightarrow> error + int) \<Rightarrow>
     (string \<Rightarrow> ('s, string) operation) \<Rightarrow> (string \<Rightarrow> ('s, int) operation) \<Rightarrow> Log list \<Rightarrow>
     TransferEvent list \<times> console_line list \<times> 's \<Rightarrow> TransferEvent list \<times> console_line list \<times> 's" where
  "process_logs getAddress BigInt symbol decimals [] state = state"
| "process_logs getAddress BigInt symbol decimals (log # logs) (transferEvents, console, s) =
     (case decode_log getAddress BigInt symbol decimals log s of
        (Inl e, warnings, s') \<Rightarrow>
          process_logs getAddress BigInt symbol decimals logs
            (transferEvents,
             console @ warnings @
               [ErrorLine (''Error processing log '' @ lg_transactionHash log @ '':'') e], s')
      | (Inr None, warnings, s') \<Rightarrow>
          process_logs getAddress BigInt symbol decimals logs
            (transferEvents, console @ warnings, s')
      | (Inr (Some event), warnings, s') \<Rightarrow>
          process_logs getAddress BigInt symbol decimals logs
            (transferEvents @ [event], console @ warnings, s'))"

section \<open>transfer-events.ts: the statistics\<close>

text \<open>
  A JavaScript \<open>Map\<close> keeps its keys in the order of their first insertion, and
  \<open>Array.from(map.entries())\<close> lists them in that order: the map is an association
  list, \<open>set\<close> on a key already there replaces the value where it stands, and \<open>get\<close>
  is \<open>map_of\<close>.
\<close>

fun map_set :: "('k \<times> 'v) list \<Rightarrow> 'k \<Rightarrow> 'v \<Rightarrow> ('k \<times> 'v) list" where
  "map_set [] k v = [(k, v)]"
| "map_set ((k', v') # m) k v = (if k' = k then (k, v) # m else (k', v') # map_set m k v)"

text \<open>
  \<open>tokenVolumes\<close> of the \<open>fetch\<close> command. The key is the template string
  \<open>`${event.tokenSymbol} (${event.contractAddress})`\<close>; \<open>get(key) || 0n\<close> is 0 for a
  key not yet there. An exception of \<open>BigInt\<close> leaves the loop.
\<close>

definition token_key :: "TransferEvent \<Rightarrow> string" where
  "token_key event = tokenSymbol event @ '' ('' @ contractAddress event @ '')''"

fun tokenVolumes_loop ::
  "(string \<Rightarrow> error + int) \<Rightarrow> TransferEvent list \<Rightarrow> (string \<times> int) list \<Rightarrow>
     error + (string \<times> int) list" where
  "tokenVolumes_loop BigInt [] tokenVolumes = Inr tokenVolumes"
| "tokenVolumes_loop BigInt (event # events) tokenVolumes =
     (let key = token_key event;
          current = (case map_of tokenVolumes key of None \<Rightarrow> 0 | Some v \<Rightarrow> v)
      in case BigInt (te_value event) of
           Inl e \<Rightarrow> Inl e
         | Inr v \<Rightarrow> tokenVolumes_loop BigInt events (map_set tokenVolumes key (current + v)))"

definition tokenVolumes ::
  "(string \<Rightarrow> error + int) \<Rightarrow> TransferEvent list \<Rightarrow> error + (string \<times> int) list" where
  "tokenVolumes BigInt transferEvents = tokenVolumes_loop BigInt transferEvents []"

text \<open>
  \<open>tokenStats\<close> of the \<open>analyze\<close> command, over the rows parsed from the CSV file; a
  column a row lacks is \<open>undefined\<close>. The key is \<open>row.tokenSymbol || 'UNKNOWN'\<close>, the
  value read is \<open>BigInt(row.value || '0')\<close>, and the entry of a key is the object
  that the loop updates in place: a counter, a volume and the \<open>Set\<close> of contract
  addresses seen.
\<close>

record CsvRow =
  row_tokenSymbol :: "string option"
  row_value :: "string option"
  row_contractAddress :: "string option"

record TokenStats =
  ts_count :: int
  ts_volume :: int
  ts_contracts :: "string option set"

definition or_default :: "string option \<Rightarrow> string \<Rightarrow> string" where
  "or_default v d = (if truthy v then the v else d)"

fun tokenStats_loop ::
  "(string \<Rightarrow> error + int) \<Rightarrow> CsvRow list \<Rightarrow> (string \<times> TokenStats) list \<Rightarrow>
     error + (string \<times> TokenStats) list" where
  "tokenStats_loop BigInt [] tokenStats = Inr tokenStats"
| "tokenStats_loop BigInt (row # rows) tokenStats =
     (let token = or_default (row_tokenSymbol row) ''UNKNOWN'' in
      case BigInt (or_default (row_value row) ''0'') of
        Inl e \<Rightarrow> Inl e
      | Inr v \<Rightarrow>
          (let contract = row_contractAddress row;
               tokenStats1 =
                 (if map_of tokenStats token = None then
                    map_set tokenStats token \<lparr>ts_count = 0, ts_volume = 0, ts_contracts = {}\<rparr>
                  else tokenStats);
               stats = the (map_of tokenStats1 token)
           in tokenStats_loop BigInt rows
                (map_set tokenStats1 token
                   \<lparr>ts_count = ts_count stats + 1, ts_volume = ts_volume stats + v,
                    ts_contracts = insert contract (ts_contracts stats)\<rparr>)))"

definition tokenStats ::
  "(string \<Rightarrow> error + int) \<Rightarrow> CsvRow list \<Rightarrow> error + (string \<times> TokenStats) list" where
  "tokenStats BigInt data = tokenStats_loop BigInt data []"

text \<open>\<open>BigInt\<close> on the decimal strings of concrete runs.\<close>

definition BigInt_decimal :: "string \<Rightarrow> error + int" where
  "BigInt_decimal str = Inr (decimal_bigint str)"

section \<open>Array.prototype.sort and the rankings\<close>

text \<open>
  The rankings call \<open>Array.prototype.sort\<close> with a comparator. The order the engine
  produces is a parameter \<open>array_sort\<close> of the ranking functions. \<open>v8_sort_short\<close> is what
  V8, the engine of Node.js, does on an array of fewer than 64 elements, where its
  minimum run length is the length of the array: \<open>CountAndMakeRun\<close> finds the run the
  array starts with, reversing it when it is descending, and \<open>BinaryInsertionSort\<close>
  inserts each later element into the sorted prefix, at the place a binary search
  with \<open>comparefn(pivot, element)\<close> finds. From 64 elements on V8 cuts the array into
  several runs and merges them; that part is not described here, and no statement below
  applies \<open>v8_sort_short\<close> to an array that long.
\<close>

fun run_extend :: "('a \<Rightarrow> 'a \<Rightarrow> int) \<Rightarrow> bool \<Rightarrow> 'a \<Rightarrow> 'a list \<Rightarrow> nat" where
  "run_extend comparefn isDescending previousElement [] = 0"
| "run_extend comparefn isDescending previousElement (currentElement # rest) =
     (let order = comparefn currentElement previousElement in
      if (if isDescending then order \<ge> 0 else order < 0) then 0
      else Suc (run_extend comparefn isDescending currentElement rest))"

fun countAndMakeRun :: "('a \<Rightarrow> 'a \<Rightarrow> int) \<Rightarrow> 'a list \<Rightarrow> nat \<times> 'a list" where
  "countAndMakeRun comparefn (elementHigh # elementLow # rest) =
     (let isDescending = comparefn elementLow elementHigh < 0;
          runLength = 2 + run_extend comparefn isDescending elementLow rest;
          workArray = elementHigh # elementLow # rest
      in (runLength,
          if isDescending then rev (take runLength workArray) @ drop runLength workArray
          else workArray))"
| "countAndMakeRun comparefn workArray = (length workArray, workArray)"

function insertion_point :: "('a \<Rightarrow> 'a \<Rightarrow> int) \<Rightarrow> 'a \<Rightarrow> 'a list \<Rightarrow> nat \<Rightarrow> nat \<Rightarrow> nat" where
  "insertion_point comparefn pivot workArray left right =
     (if left < right then
        (let mid = left + (right - left) div 2 in
         if comparefn pivot (workArray ! mid) < 0 then
           insertion_point comparefn pivot workArray left mid
         else insertion_point comparefn pivot workArray (mid + 1) right)
      else left)"
  by pat_completeness auto
termination
  by (relation "measure (\<lambda>(comparefn, pivot, workArray, left, right). right - left)") auto

declare insertion_point.simps [simp del]

definition insert_pivot :: "('a \<Rightarrow> 'a \<Rightarrow> int) \<Rightarrow> 'a list \<Rightarrow> nat \<Rightarrow> 'a list" where
  "insert_pivot comparefn workArray start =
     (let pivot = workArray ! start;
          left = insertion_point comparefn pivot workArray 0 start
      in take left workArray @ pivot # drop left (take start workArray) @
           drop (Suc start) workArray)"

definition binaryInsertionSort :: "('a \<Rightarrow> 'a \<Rightarrow> int) \<Rightarrow> 'a list \<Rightarrow> nat \<Rightarrow> 'a list" where
  "binaryInsertionSort comparefn workArray startArg =
     foldl (insert_pivot comparefn) workArray [startArg..<length workArray]"

definition v8_sort_short :: "('a \<Rightarrow> 'a \<Rightarrow> int) \<Rightarrow> 'a list \<Rightarrow> 'a list" where
  "v8_sort_short comparefn array =
     (if length array < 2 then array
      else
        case countAndMakeRun comparefn array of
          (currentRunLength, workArray) \<Rightarrow>
            if currentRunLength < length array then
              binaryInsertionSort comparefn workArray currentRunLength
            else workArray)"

text \<open>
  The comparators of the rankings, \<open>(a, b) => (b[1] > a[1] ? 1 : -1)\<close> in \<open>fetch\<close> and
  \<open>(a, b) => (b[1].volume > a[1].volume ? 1 : -1)\<close> in \<open>analyze\<close>, and the rankings:
  \<open>topTokens\<close> keeps the first 5 entries, \<open>sortedTokens\<close> the first \<open>topN\<close>, where
  \<open>slice(0, topN)\<close> with a negative \<open>topN\<close> counts from the end of the array.
\<close>

definition by_volume :: "'k \<times> int \<Rightarrow> 'k \<times> int \<Rightarrow> int" where
  "by_volume a b = (if snd b > snd a then 1 else - 1)"

definition by_stats_volume :: "'k \<times> TokenStats \<Rightarrow> 'k \<times> TokenStats \<Rightarrow> int" where
  "by_stats_volume a b = (if ts_volume (snd b) > ts_volume (snd a) then 1 else - 1)"

definition slice0 :: "int \<Rightarrow> 'a list \<Rightarrow> 'a list" where
  "slice0 n array =
     (if n < 0 then take (length array - nat (- n)) array else take (nat n) array)"

definition topTokens ::
  "((string \<times> int \<Rightarrow> string \<times> int \<Rightarrow> int) \<Rightarrow> (string \<times> int) list \<Rightarrow> (string \<times> int) list) \<Rightarrow>
     (string \<times> int) list \<Rightarrow> (string \<times> int) list" where
  "topTokens array_sort entries = take 5 (array_sort by_volume entries)"

definition sortedTokens ::
  "((string \<times> TokenStats \<Rightarrow> string \<times> TokenStats \<Rightarrow> int) \<Rightarrow>
      (string \<times> TokenStats) list \<Rightarrow> (string \<times> TokenStats) list) \<Rightarrow>
     int \<Rightarrow> (string \<times> TokenStats) list \<Rightarrow> (string \<times> TokenStats) list" where
  "sortedTokens array_sort topN entries = slice0 topN (array_sort by_stats_volume entries)"

section \<open>Concrete inputs and reading functions\<close>

text \<open>
  \<open>BigInt\<close> on a hexadecimal literal \<open>0x\<dots>\<close>, the form of a log's data field; any other
  string is refused here with the \<open>SyntaxError\<close> that \<open>BigInt\<close> throws on a string
  it cannot read.
\<close>

definition hex_digit :: "char \<Rightarrow> nat option" where
  "hex_digit c =
     map_of (zip ''0123456789abcdefABCDEF''
               [0, 1, 2, 3, 4, 5, 6, 7, 8, 9, 10, 11, 12, 13, 14, 15, 10, 11, 12, 13, 14, 15]) c"

fun hex_nat :: "nat \<Rightarrow> string \<Rightarrow> nat option" where
  "hex_nat a [] = Some a"
| "hex_nat a (c # cs) = (case hex_digit c of None \<Rightarrow> None | Some d \<Rightarrow> hex_nat (16 * a + d) cs)"

definition BigInt_hex :: "string \<Rightarrow> error + int" where
  "BigInt_hex str =
     (case str of
        c0 # c1 # ds \<Rightarrow>
          if c0 = CHR ''0'' \<and> c1 = CHR ''x'' \<and> ds \<noteq> [] then
            (case hex_nat 0 ds of
               None \<Rightarrow> Inl (Error ''SyntaxError: Cannot convert to a BigInt'')
             | Some n \<Rightarrow> Inr (int n))
          else Inl (Error ''SyntaxError: Cannot convert to a BigInt'')
      | _ \<Rightarrow> Inl (Error ''SyntaxError: Cannot convert to a BigInt''))"

text \<open>
  An address check that accepts every string of 42 characters as it is, and refuses
  the others; a contract call that answers with a fixed value.
\<close>

definition getAddress_length :: "string \<Rightarrow> error + string" where
  "getAddress_length str = (if length str = 42 then Inr str else Inl (Error ''invalid address''))"

definition answering :: "'a \<Rightarrow> string \<Rightarrow> ('s, 'a) operation" where
  "answering v address s = (Inr v, s)"

text \<open>
  Three logs: a transfer of \<open>0xde0b6b3a7640000\<close> units, a log with two topics only, and
  a transfer with empty data.
\<close>

definition transfer_topic :: string where
  "transfer_topic = ''0xddf252ad1be2c89b69c2b068fc378daa952ba7f163c4a11628f55a4df523b3ef''"

definition topic_a :: string where
  "topic_a = ''0x000000000000000000000000d8da6bf26964af9d7eed9e03e53415d37aa96045''"

definition topic_b :: string where
  "topic_b = ''0x0000000000000000000000003f5ce5fbfe3e9af3971dd833d26ba9b5c936f0be''"

definition good_log :: Log where
  "good_log = \<lparr>lg_address = ''0xA0'', lg_topics = [transfer_topic, topic_a, topic_b],
               lg_data = ''0x0de0b6b3a7640000'', lg_blockNumber = 100,
               lg_transactionHash = ''0xt1'', lg_index = 0\<rparr>"

definition short_log :: Log where
  "short_log = \<lparr>lg_address = ''0xA0'', lg_topics = [transfer_topic, topic_a],
                lg_data = ''0x01'', lg_blockNumber = 100,
                lg_transactionHash = ''0xt2'', lg_index = 1\<rparr>"

definition empty_log :: Log where
  "empty_log = \<lparr>lg_address = ''0xA0'', lg_topics = [transfer_topic, topic_b, topic_a],
                lg_data = ''0x'', lg_blockNumber = 100,
                lg_transactionHash = ''0xt3'', lg_index = 2\<rparr>"

text \<open>
  Reading the statistics: the volume under a key, 0 for a key that is absent; the entry
  under a symbol, the initial entry for a symbol that is absent; the value \<open>BigInt\<close>
  reads from an event or a row; the symbol a row is counted under.
\<close>

definition volume_of :: "(string \<times> int) list \<Rightarrow> string \<Rightarrow> int" where
  "volume_of m k = (case map_of m k of None \<Rightarrow> 0 | Some v \<Rightarrow> v)"

definition stats_of :: "(string \<times> TokenStats) list \<Rightarrow> string \<Rightarrow> TokenStats" where
  "stats_of m k =
     (case map_of m k of
        None \<Rightarrow> \<lparr>ts_count = 0, ts_volume = 0, ts_contracts = {}\<rparr>
      | Some st \<Rightarrow> st)"

definition read_value :: "(string \<Rightarrow> error + int) \<Rightarrow> string \<Rightarrow> int" where
  "read_value BigInt str = (case BigInt str of Inl e \<Rightarrow> 0 | Inr v \<Rightarrow> v)"

definition row_symbol :: "CsvRow \<Rightarrow> string" where
  "row_symbol row = or_default (row_tokenSymbol row) ''UNKNOWN''"

text \<open>
  Two events and two rows of the same symbol at two contracts, and two events of equal
  value for two tokens.
\<close>

definition usdc_event :: "string \<Rightarrow> string \<Rightarrow> TransferEvent" where
  "usdc_event address amount =
     \<lparr>contractAddress = address, te_from = ''0xF1'', te_to = ''0xF2'', te_value = amount,
      te_blockNumber = 100, te_transactionHash = ''0xt1'', logIndex = 0,
      tokenSymbol = ''USDC'', tokenDecimals = 6\<rparr>"

definition usdc_row :: "string \<Rightarrow> string \<Rightarrow> CsvRow" where
  "usdc_row address amount =
     \<lparr>row_tokenSymbol = Some ''USDC'', row_value = Some amount,
      row_contractAddress = Some address\<rparr>"

definition token_event :: "string \<Rightarrow> string \<Rightarrow> string \<Rightarrow> TransferEvent" where
  "token_event name address amount =
     \<lparr>contractAddress = address, te_from = ''0xF1'', te_to = ''0xF2'', te_value = amount,
      te_blockNumber = 100, te_transactionHash = ''0xt1'', logIndex = 0,
      tokenSymbol = name, tokenDecimals = 18\<rparr>"

section \<open>Properties of retryOperation\<close>

text \<open>
  Counting the invocations: from loop index \<open>i\<close> on, the loop invokes the operation at
  most \<open>maxRetries - i\<close> more times.
\<close>

lemma retry_loop_count:
  "snd (snd (retry_loop (counting operation) maxRetries i (s, n))) \<le> n + nat (maxRetries - i)"
proof (induction "counting operation" maxRetries i "(s, n)" arbitrary: s n rule: retry_loop.induct)
  case (1 maxRetries i)
  show ?case
  proof (cases "i < maxRetries")
    case False
    then show ?thesis by simp
  next
    case True
    obtain r s' where op: "operation s = (r, s')" by (cases "operation s")
    show ?thesis
    proof (cases r)
      case (Inr v)
      with True op show ?thesis by (simp add: counting_def)
    next
      case (Inl e)
      show ?thesis
      proof (cases "i = maxRetries - 1")
        case True
        with Inl op show ?thesis by (simp add: counting_def)
      next
        case False
        have c: "counting operation (s, n) = (Inl e, (s', Suc n))"
          using op Inl by (simp add: counting_def)
        have "snd (snd (retry_loop (counting operation) maxRetries (i + 1) (s', Suc n)))
                \<le> Suc n + nat (maxRetries - (i + 1))"
          using "1.hyps"[OF True c[symmetric] refl False] .
        with True False c show ?thesis by simp
      qed
    qed
  qed
qed

text \<open>
  C2. With \<open>maxRetries = 3\<close>, \<open>retryOperation\<close> returns the value of the first attempt
  that succeeds among the first three (so two failures followed by a success give the
  success), and when all three attempts fail it fails with the error of the third, the
  last attempt. Whatever \<open>maxRetries\<close> is, the operation is invoked at most
  \<open>maxRetries\<close> times: the call counter of the instrumented operation ends at most there.
\<close>

theorem retryOperation_three_attempts:
  "(operation s = (Inr v, s1) \<longrightarrow> retryOperation operation 3 delay s = (Inr v, s1)) \<and>
   (operation s = (Inl e1, s1) \<and> operation s1 = (Inr v, s2) \<longrightarrow>
      retryOperation operation 3 delay s = (Inr v, s2)) \<and>
   (operation s = (Inl e1, s1) \<and> operation s1 = (Inl e2, s2) \<and> operation s2 = (Inr v, s3) \<longrightarrow>
      retryOperation operation 3 delay s = (Inr v, s3)) \<and>
   (operation s = (Inl e1, s1) \<and> operation s1 = (Inl e2, s2) \<and> operation s2 = (Inl e3, s3) \<longrightarrow>
      retryOperation operation 3 delay s = (Inl e3, s3)) \<and>
   snd (snd (retryOperation (counting operation) maxRetries delay (s, 0))) \<le> nat maxRetries"
  using retry_loop_count[of operation maxRetries 0 s 0]
  by (simp add: retryOperation_def)

text \<open>
  Two failures and then a success: the third attempt's value is returned and the script
  is used up. Four failures in the script: the third error is the one propagated, and the
  fourth outcome is never asked for.
\<close>

theorem retryOperation_three_attempts_witness:
  "retryOperation scripted 3 1000 [Inl (Error ''e1''), Inl (Error ''e2''), Inr (7::nat)]
     = (Inr 7, []) \<and>
   retryOperation scripted 3 1000
       [Inl (Error ''e1''), Inl (Error ''e2''), Inl (Error ''e3''), Inl (Error ''e4'') :: error + nat]
     = (Inl (Error ''e3''), [Inl (Error ''e4'')])"
  using retryOperation_three_attempts[where operation = scripted
      and s = "[Inl (Error ''e1''), Inl (Error ''e2''), Inr (7::nat)]"
      and ?e1.0 = "Error ''e1''" and ?s1.0 = "[Inl (Error ''e2''), Inr (7::nat)]"
      and ?e2.0 = "Error ''e2''" and ?s2.0 = "[Inr (7::nat)]" and v = 7 and ?s3.0 = "[]"
      and delay = 1000]
    retryOperation_three_attempts[where operation = scripted
      and s = "[Inl (Error ''e1''), Inl (Error ''e2''), Inl (Error ''e3''), Inl (Error ''e4'') :: error + nat]"
      and ?e1.0 = "Error ''e1''"
      and ?s1.0 = "[Inl (Error ''e2''), Inl (Error ''e3''), Inl (Error ''e4'') :: error + nat]"
      and ?e2.0 = "Error ''e2''" and ?s2.0 = "[Inl (Error ''e3''), Inl (Error ''e4'') :: error + nat]"
      and ?e3.0 = "Error ''e3''" and ?s3.0 = "[Inl (Error ''e4'') :: error + nat]"
      and delay = 1000]
  by simp

text \<open>
  C10. With \<open>maxRetries \<le> 0\<close> the loop body is never entered: the call fails with
  \<open>Max retries exceeded\<close> and the state is the one it started in, for every operation,
  so the operation was not invoked; the call counter of the instrumented operation
  stays at 0.
\<close>

theorem retryOperation_no_attempts:
  "maxRetries \<le> 0 \<Longrightarrow>
     retryOperation operation maxRetries delay s = (Inl (Error ''Max retries exceeded''), s) \<and>
     retryOperation (counting operation) maxRetries delay (s, 0)
       = (Inl (Error ''Max retries exceeded''), (s, 0))"
  by (simp add: retryOperation_def)

theorem retryOperation_no_attempts_witness:
  "(0::int) \<le> 0 \<and>
   retryOperation scripted 0 1000 [Inr (7::nat)] = (Inl (Error ''Max retries exceeded''), [Inr 7]) \<and>
   retryOperation (counting scripted) 0 1000 ([Inr (7::nat)], 0)
     = (Inl (Error ''Max retries exceeded''), ([Inr 7], 0))"
  using retryOperation_no_attempts[of 0 scripted 1000 "[Inr (7::nat)]"]
  by simp

section \<open>Properties of the timestamp validation\<close>

text \<open>
  C5. A timestamp is accepted exactly when it lies strictly between 1420000000 and
  9999999999. For every other timestamp the \<open>find\<close> command ends with the
  invalid-timestamp message and status 1, and the state of the outside world is the
  one it started in, whatever the provider is: no call to the endpoint was made.
\<close>

theorem find_rejects_invalid_timestamp:
  "(isValidTimestamp t \<longleftrightarrow> 1420000000 < t \<and> t < 9999999999) \<and>
   (\<not> (1420000000 < t \<and> t < 9999999999) \<longrightarrow>
      find_action getLatest getBlock getBalance isValidAddress t address s
        = (Exit1 ''Invalid timestamp. Must be a valid Unix timestamp.'', s))"
  by (auto simp: isValidTimestamp_def find_action_def)


theorem find_rejects_invalid_timestamp_witness:
  "find_action offline (\<lambda>n. offline) (\<lambda>a n. offline) (\<lambda>a. True) 1420000000 None ()
     = (Exit1 ''Invalid timestamp. Must be a valid Unix timestamp.'', ()) \<and>
   find_action offline (\<lambda>n. offline) (\<lambda>a n. offline) (\<lambda>a. True) 9999999999 None ()
     = (Exit1 ''Invalid timestamp. Must be a valid Unix timestamp.'', ())"
  using find_rejects_invalid_timestamp[of 1420000000 offline "\<lambda>n. offline" "\<lambda>a n. offline" "\<lambda>a. True" None "()"]
    find_rejects_invalid_timestamp[of 9999999999 offline "\<lambda>n. offline" "\<lambda>a n. offline" "\<lambda>a. True" None "()"]
  by simp

section \<open>Properties of the binary search\<close>

lemma find_append:
  "List.find P (xs @ ys) = (case List.find P xs of None \<Rightarrow> List.find P ys | Some x \<Rightarrow> Some x)"
  by (induction xs) auto

lemma mid_bounds:
  fixes low high :: int
  assumes "low \<le> high"
  shows "low \<le> (low + high) div 2" and "(low + high) div 2 \<le> high"
  using assms by linarith+


subsection \<open>The calls made to the provider\<close>

text \<open>
  The lemmas speak of any provider whose state has a component \<open>lg\<close> to which each call
  appends the height asked for; \<open>logged\<close> is one.
\<close>

lemma retry_loop_log:
  assumes "\<forall>st. lg (snd (operation st)) = lg st @ [n]"
  shows "\<exists>k. lg (snd (retry_loop operation m i st)) = lg st @ replicate k n \<and>
             k \<le> nat (m - i) \<and> (i < m \<longrightarrow> 1 \<le> k)"
  using assms
proof (induction operation m i st rule: retry_loop.induct)
  case (1 operation m i st)
  show ?case
  proof (cases "i < m")
    case False
    then have "lg (snd (retry_loop operation m i st)) = lg st @ replicate 0 n" by simp
    with False show ?thesis by (metis le0)
  next
    case True
    obtain r st' where op: "operation st = (r, st')" by (cases "operation st")
    have lg': "lg st' = lg st @ [n]" using "1.prems" op by (metis snd_conv)
    show ?thesis
    proof (cases "\<exists>v. r = Inr v \<or> i = m - 1")
      case stop: True
      then have "retry_loop operation m i st = (r, st')"
        using True op by (cases r) auto
      then have "lg (snd (retry_loop operation m i st)) = lg st @ replicate 1 n"
        using lg' by simp
      moreover have "(1::nat) \<le> nat (m - i)" using True by simp
      ultimately show ?thesis by blast
    next
      case go: False
      then obtain e where e: "r = Inl e" and ne: "i \<noteq> m - 1" by (cases r) auto
      have step: "retry_loop operation m i st = retry_loop operation m (i + 1) st'"
        using True op e ne by simp
      obtain k where k: "lg (snd (retry_loop operation m (i + 1) st')) = lg st' @ replicate k n"
          "k \<le> nat (m - (i + 1))"
        using "1.IH"[OF True op[symmetric] e ne "1.prems"] by blast
      have "lg (snd (retry_loop operation m i st)) = lg st @ replicate (Suc k) n"
        using step k(1) lg' by (simp add: replicate_append_same)
      moreover have "Suc k \<le> nat (m - i)" using k(2) True ne by linarith
      ultimately show ?thesis by (metis One_nat_def Suc_le_mono le0)
    qed
  qed
qed

lemma findBlock_loop_log:
  assumes "\<forall>n st. lg (snd (getBlock n st)) = lg st @ [n]"
  shows "\<exists>probes. lg (snd (findBlock_loop getBlock t low high result iterations st))
                     = lg st @ probe_calls probes \<and>
                   length probes \<le> maxIterations - iterations \<and>
                   list_all (\<lambda>(mid, k). low \<le> mid \<and> mid \<le> high \<and> 1 \<le> k \<and> k \<le> 3) probes"
  using assms
proof (induction getBlock t low high result iterations st rule: findBlock_loop.induct)
  case (1 getBlock t low high result iterations st)
  show ?case
  proof (cases "low \<le> high \<and> iterations < maxIterations")
    case False
    then have "findBlock_loop getBlock t low high result iterations st = (result, st)"
      by (subst findBlock_loop.simps) auto
    then have "lg (snd (findBlock_loop getBlock t low high result iterations st))
                 = lg st @ probe_calls []"
      by (simp add: probe_calls_def)
    moreover have "length ([] :: (int \<times> nat) list) \<le> maxIterations - iterations" by simp
    moreover have "list_all (\<lambda>(mid, k). low \<le> mid \<and> mid \<le> high \<and> 1 \<le> k \<and> k \<le> 3) []" by simp
    ultimately show ?thesis by blast
  next
    case True
    define mid where "mid = (low + high) div 2"
    have mid: "low \<le> mid" "mid \<le> high"
      using mid_bounds True by (simp_all add: mid_def)
    obtain r st' where fetch: "retryOperation (getBlock mid) 3 1000 st = (r, st')"
      by (cases "retryOperation (getBlock mid) 3 1000 st")
    obtain k where k: "lg st' = lg st @ replicate k mid" "1 \<le> k" "k \<le> 3"
      using retry_loop_log[of lg "getBlock mid" mid 3 0 st] "1.prems" fetch
      by (auto simp: retryOperation_def)
    have room: "1 \<le> maxIterations - iterations" using True by linarith
    have one: "lg st' = lg st @ probe_calls [(mid, k)]"
      using k(1) by (simp add: probe_calls_def)
    have ok: "list_all (\<lambda>(mid, k). low \<le> mid \<and> mid \<le> high \<and> 1 \<le> k \<and> k \<le> 3) [(mid, k)]"
      using mid k by simp
    consider (stop) "findBlock_loop getBlock t low high result iterations st = (result, st')"
      | (up) block where "r = Inr (Some block)" "timestamp block < t"
          "findBlock_loop getBlock t low high result iterations st =
             findBlock_loop getBlock t (mid + 1) high result (iterations + 1) st'"
      | (down) block where "r = Inr (Some block)" "\<not> timestamp block < t"
          "findBlock_loop getBlock t low high result iterations st =
             findBlock_loop getBlock t low (mid - 1)
               (Some \<lparr>number = number block, timestamp = timestamp block, hash = hash block\<rparr>)
               (iterations + 1) st'"
    proof (cases r)
      case (Inl e)
      then have "findBlock_loop getBlock t low high result iterations st = (result, st')"
        using True fetch by (subst findBlock_loop.simps) (simp add: mid_def[symmetric] Let_def)
      then show ?thesis by (rule stop)
    next
      case (Inr b)
      show ?thesis
      proof (cases b)
        case None
        then have "findBlock_loop getBlock t low high result iterations st = (result, st')"
          using True fetch Inr by (subst findBlock_loop.simps) (simp add: mid_def[symmetric] Let_def)
        then show ?thesis by (rule stop)
      next
        case (Some block)
        show ?thesis
        proof (cases "timestamp block < t")
          case True
          with \<open>low \<le> high \<and> iterations < maxIterations\<close> fetch Inr Some
          have "findBlock_loop getBlock t low high result iterations st =
             findBlock_loop getBlock t (mid + 1) high result (iterations + 1) st'"
            by (subst findBlock_loop.simps) (simp add: mid_def[symmetric] Let_def)
          with Inr Some True show ?thesis using up by blast
        next
          case False
          with \<open>low \<le> high \<and> iterations < maxIterations\<close> fetch Inr Some
          have "findBlock_loop getBlock t low high result iterations st =
             findBlock_loop getBlock t low (mid - 1)
               (Some \<lparr>number = number block, timestamp = timestamp block, hash = hash block\<rparr>)
               (iterations + 1) st'"
            by (subst findBlock_loop.simps) (simp add: mid_def[symmetric] Let_def)
          with Inr Some False show ?thesis using down by blast
        qed
      qed
    qed
    then show ?thesis
    proof cases
      case stop
      then have "lg (snd (findBlock_loop getBlock t low high result iterations st))
                   = lg st @ probe_calls [(mid, k)]"
        using one by simp
      moreover have "length [(mid, k)] \<le> maxIterations - iterations" using room by simp
      ultimately show ?thesis using ok by blast
    next
      case (up block)
      obtain probes where p:
        "lg (snd (findBlock_loop getBlock t (mid + 1) high result (iterations + 1) st'))
           = lg st' @ probe_calls probes"
        "length probes \<le> maxIterations - (iterations + 1)"
        "list_all (\<lambda>(m, k). mid + 1 \<le> m \<and> m \<le> high \<and> 1 \<le> k \<and> k \<le> 3) probes"
        using "1.IH"(1)[OF True mid_def fetch[symmetric] up(1) refl up(2) "1.prems"] by blast
      have "lg (snd (findBlock_loop getBlock t low high result iterations st))
              = lg st @ probe_calls ((mid, k) # probes)"
        using up(3) p(1) one by (simp add: probe_calls_def)
      moreover have "length ((mid, k) # probes) \<le> maxIterations - iterations"
        using p(2) room by simp
      moreover have "list_all (\<lambda>(m, k). low \<le> m \<and> m \<le> high \<and> 1 \<le> k \<and> k \<le> 3) ((mid, k) # probes)"
        using p(3) ok mid by (auto simp: list_all_iff)
      ultimately show ?thesis by blast
    next
      case (down block)
      obtain probes where p:
        "lg (snd (findBlock_loop getBlock t low (mid - 1)
               (Some \<lparr>number = number block, timestamp = timestamp block, hash = hash block\<rparr>)
               (iterations + 1) st'))
           = lg st' @ probe_calls probes"
        "length probes \<le> maxIterations - (iterations + 1)"
        "list_all (\<lambda>(m, k). low \<le> m \<and> m \<le> mid - 1 \<and> 1 \<le> k \<and> k \<le> 3) probes"
        using "1.IH"(2)[OF True mid_def fetch[symmetric] down(1) refl down(2) "1.prems"] by blast
      have "lg (snd (findBlock_loop getBlock t low high result iterations st))
              = lg st @ probe_calls ((mid, k) # probes)"
        using down(3) p(1) one by (simp add: probe_calls_def)
      moreover have "length ((mid, k) # probes) \<le> maxIterations - iterations"
        using p(2) room by simp
      moreover have "list_all (\<lambda>(m, k). low \<le> m \<and> m \<le> high \<and> 1 \<le> k \<and> k \<le> 3) ((mid, k) # probes)"
        using p(3) ok mid by (auto simp: list_all_iff)
      ultimately show ?thesis by blast
    qed
  qed
qed




lemma length_probe_calls:
  "list_all (\<lambda>(mid, k). k \<le> 3) probes \<Longrightarrow> length (probe_calls probes) \<le> 3 * length probes"
  by (induction probes) (auto simp: probe_calls_def)

text \<open>
  C6. Whatever the range, the target and the provider, the calls \<open>findBlockByTimestamp\<close>
  makes to \<open>getBlock\<close> are those of at most 50 probes, one midpoint each; a probe is one
  \<open>retryOperation\<close>, that is between one and three attempts at the same height, so
  that the provider is called at most 150 times in all.
\<close>

theorem findBlockByTimestamp_probe_bound:
  "\<exists>probes. snd (snd (findBlockByTimestamp (logged getBlock) t low high (s, []))) = probe_calls probes \<and>
      length probes \<le> 50 \<and> list_all (\<lambda>(mid, k). 1 \<le> k \<and> k \<le> 3) probes \<and>
      length (probe_calls probes) \<le> 150"
proof -
  have "\<forall>n st. snd (snd (logged getBlock n st)) = snd st @ [n]"
    by (auto simp: logged_def split: prod.splits)
  from findBlock_loop_log[where lg = snd, OF this, of t low high None 0 "(s, [])"]
  obtain probes where p: "snd (snd (findBlock_loop (logged getBlock) t low high None 0 (s, []))) = probe_calls probes"
      "length probes \<le> maxIterations"
      "list_all (\<lambda>(mid, k). low \<le> mid \<and> mid \<le> high \<and> 1 \<le> k \<and> k \<le> 3) probes"
    by auto
  have attempts: "list_all (\<lambda>(mid, k). 1 \<le> k \<and> k \<le> 3) probes"
    using p(3) by (auto simp: list_all_iff)
  then have "list_all (\<lambda>(mid, k). k \<le> 3) probes"
    by (auto simp: list_all_iff)
  from length_probe_calls[OF this] p(2) have "length (probe_calls probes) \<le> 150"
    by (simp add: maxIterations_def)
  with p(1,2) attempts show ?thesis
    by (auto simp: findBlockByTimestamp_def maxIterations_def)
qed

subsection \<open>The block returned\<close>







subsection \<open>The search finds the earliest block\<close>

lemma findBlock_loop_correct:
  assumes "\<forall>n s. low \<le> n \<and> n \<le> high \<longrightarrow> fst (retryOperation (getBlock n) 3 1000 s) = Inr (Some (blk n))"
      and "\<forall>a b. low \<le> a \<and> a \<le> b \<and> b \<le> high \<longrightarrow> timestamp (blk a) \<le> timestamp (blk b)"
      and "high - low + 1 < 2 ^ (maxIterations - iterations)"
  shows "fst (findBlock_loop getBlock t low high result iterations s) =
           (case List.find (\<lambda>b. t \<le> timestamp (blk b)) [low..high] of
              None \<Rightarrow> result | Some b \<Rightarrow> Some (blk b))"
  using assms
proof (induction getBlock t low high result iterations s rule: findBlock_loop.induct)
  case (1 getBlock t low high result iterations s)
  let ?P = "\<lambda>b. t \<le> timestamp (blk b)"
  show ?case
  proof (cases "low \<le> high")
    case False
    then show ?thesis by (simp add: findBlock_loop.simps)
  next
    case True
    have it: "iterations < maxIterations"
    proof (rule ccontr)
      assume "\<not> iterations < maxIterations"
      then have "maxIterations - iterations = 0" by simp
      with "1.prems"(3) True show False by simp
    qed
    define mid where "mid = (low + high) div 2"
    have mid: "low \<le> mid" "mid \<le> high"
      using mid_bounds[OF True] by (simp_all add: mid_def)
    have mid2: "2 * mid \<le> low + high" "low + high \<le> 2 * mid + 1"
      unfolding mid_def by linarith+
    obtain s' where fetch: "retryOperation (getBlock mid) 3 1000 s = (Inr (Some (blk mid)), s')"
      using "1.prems"(1) mid by (metis prod.collapse)
    obtain k where k: "maxIterations - iterations = Suc k"
      using it by (metis Suc_diff_Suc)
    then have k': "maxIterations - (iterations + 1) = k" by simp
    have pw: "high - low + 1 < 2 * 2 ^ k"
      using "1.prems"(3) k by simp
    have split: "[low..high] = [low..mid - 1] @ mid # [mid + 1..high]"
      using upto_split3[OF mid] .
    show ?thesis
    proof (cases "timestamp (blk mid) < t")
      case lt: True
      have none: "List.find ?P ([low..mid - 1] @ [mid]) = None"
      proof -
        have "\<forall>b. low \<le> b \<and> b \<le> mid \<longrightarrow> \<not> ?P b"
        proof (intro allI impI)
          fix b assume "low \<le> b \<and> b \<le> mid"
          with "1.prems"(2) mid have "timestamp (blk b) \<le> timestamp (blk mid)" by simp
          with lt show "\<not> ?P b" by simp
        qed
        with mid show ?thesis by (auto simp: find_None_iff)
      qed
      have eq: "List.find ?P [low..high] = List.find ?P [mid + 1..high]"
        using none split find_append[of ?P "[low..mid - 1] @ [mid]" "[mid + 1..high]"] by simp
      have IH: "fst (findBlock_loop getBlock t (mid + 1) high result (iterations + 1) s') =
           (case List.find ?P [mid + 1..high] of None \<Rightarrow> result | Some b \<Rightarrow> Some (blk b))"
      proof (rule "1.IH"(1)[OF _ mid_def fetch[symmetric] refl refl])
        show "low \<le> high \<and> iterations < maxIterations" using True it by simp
        show "timestamp (blk mid) < t" using lt .
        show "\<forall>n s. mid + 1 \<le> n \<and> n \<le> high \<longrightarrow> fst (retryOperation (getBlock n) 3 1000 s) = Inr (Some (blk n))"
          using "1.prems"(1) mid by simp
        show "\<forall>a b. mid + 1 \<le> a \<and> a \<le> b \<and> b \<le> high \<longrightarrow> timestamp (blk a) \<le> timestamp (blk b)"
          using "1.prems"(2) mid by simp
        show "high - (mid + 1) + 1 < 2 ^ (maxIterations - (iterations + 1))"
          using pw mid2 k' by simp
      qed
      have "findBlock_loop getBlock t low high result iterations s =
              findBlock_loop getBlock t (mid + 1) high result (iterations + 1) s'"
        using True it fetch lt
        by (subst findBlock_loop.simps) (simp add: mid_def[symmetric] Let_def)
      with IH eq show ?thesis by simp
    next
      case ge: False
      have eq: "List.find ?P [low..high] =
                  (case List.find ?P [low..mid - 1] of None \<Rightarrow> Some mid | Some b \<Rightarrow> Some b)"
        using ge split find_append[of ?P "[low..mid - 1]" "mid # [mid + 1..high]"]
        by (simp split: option.splits)
      have blk_eq: "\<lparr>number = number (blk mid), timestamp = timestamp (blk mid), hash = hash (blk mid)\<rparr> = blk mid"
        by simp
      have IH: "fst (findBlock_loop getBlock t low (mid - 1) (Some (blk mid)) (iterations + 1) s') =
           (case List.find ?P [low..mid - 1] of None \<Rightarrow> Some (blk mid) | Some b \<Rightarrow> Some (blk b))"
      proof (rule "1.IH"(2)[OF _ mid_def fetch[symmetric] refl refl, unfolded blk_eq])
        show "low \<le> high \<and> iterations < maxIterations" using True it by simp
        show "\<not> timestamp (blk mid) < t" using ge .
        show "\<forall>n s. low \<le> n \<and> n \<le> mid - 1 \<longrightarrow> fst (retryOperation (getBlock n) 3 1000 s) = Inr (Some (blk n))"
          using "1.prems"(1) mid by simp
        show "\<forall>a b. low \<le> a \<and> a \<le> b \<and> b \<le> mid - 1 \<longrightarrow> timestamp (blk a) \<le> timestamp (blk b)"
          using "1.prems"(2) mid by simp
        show "mid - 1 - low + 1 < 2 ^ (maxIterations - (iterations + 1))"
          using pw mid2 k' by simp
      qed
      have "findBlock_loop getBlock t low high result iterations s =
              findBlock_loop getBlock t low (mid - 1) (Some (blk mid)) (iterations + 1) s'"
        using True it fetch ge
        by (subst findBlock_loop.simps) (simp add: mid_def[symmetric] Let_def blk_eq)
      with IH eq show ?thesis by (simp split: option.splits)
    qed
  qed
qed




text \<open>
  The heights at which the numbers of the code are exact: in a range with
  \<open>0 \<le> low \<le> high < 2^52\<close> the sum the midpoint is computed from is below
  \<open>2^53\<close>, and both ranges the loop may go on with lie within the same bounds.
\<close>

lemma heights_stay_exact:
  fixes low high :: int
  assumes "0 \<le> low" and "low \<le> high" and "high < 2 ^ 52"
  shows "0 \<le> low + high \<and> low + high < 2 ^ 53"
    and "0 \<le> (low + high) div 2 + 1 \<and> (low + high) div 2 + 1 \<le> high + 1"
    and "low - 1 \<le> (low + high) div 2 - 1 \<and> (low + high) div 2 - 1 < 2 ^ 52"
  using assms by auto

text \<open>
  C1, as the code has it. Let the range lie at heights where the numbers of the code
  are exact, \<open>0 \<le> low\<close> and \<open>high < 2^52\<close>; let the provider serve every height
  \<open>n\<close> of \<open>[low, high]\<close> with the block \<open>blk n\<close> (each retried fetch succeeds), let
  the timestamps be non-decreasing in the height over the range, and let the range
  hold fewer than \<open>2^50\<close> blocks. Then \<open>findBlockByTimestamp\<close> returns the earliest
  block of the range whose timestamp is at least the target, a block with exactly the
  target's timestamp included, and \<open>null\<close> when the range has no such block.
\<close>

theorem findBlockByTimestamp_earliest:
  assumes "0 \<le> low" and "high < 2 ^ 52"
      and "\<forall>n s. low \<le> n \<and> n \<le> high \<longrightarrow>
             fst (retryOperation (getBlock n) 3 1000 s) = Inr (Some (blk n))"
      and "\<forall>a b. low \<le> a \<and> a \<le> b \<and> b \<le> high \<longrightarrow> timestamp (blk a) \<le> timestamp (blk b)"
      and "high - low + 1 < 2 ^ 50"
  shows "fst (findBlockByTimestamp getBlock t low high s) = earliest_block_not_before blk t low high"
  using findBlock_loop_correct[of low high getBlock blk 0 t None s] assms(3-5)
  by (simp add: findBlockByTimestamp_def earliest_block_not_before_def maxIterations_def
           split: option.splits)

text \<open>
  Blocks 4 and 5 of the paired chain both carry the timestamp 104; the search for 104
  over \<open>[0, 9]\<close> returns block 4.
\<close>

theorem findBlockByTimestamp_earliest_witness:
  "fst (findBlockByTimestamp (chain paired_clock) 104 0 9 ()) = Some (chain_block paired_clock 4) \<and>
   timestamp (chain_block paired_clock 4) = 104 \<and> timestamp (chain_block paired_clock 5) = 104"
proof -
  have serves: "\<forall>n s. 0 \<le> n \<and> n \<le> 9 \<longrightarrow>
      fst (retryOperation (chain paired_clock n) 3 1000 (s::unit)) = Inr (Some (chain_block paired_clock n))"
    by (simp add: retryOperation_def chain_def)
  have mono: "\<forall>a b. 0 \<le> a \<and> a \<le> b \<and> b \<le> 9 \<longrightarrow>
      timestamp (chain_block paired_clock a) \<le> timestamp (chain_block paired_clock b)"
    by (simp add: chain_block_def paired_clock_def zdiv_mono1)
  have small: "(9::int) - 0 + 1 < 2 ^ 50" by simp
  have heights: "(0::int) \<le> 0" "(9::int) < 2 ^ 52" by simp_all
  have spec: "earliest_block_not_before (chain_block paired_clock) 104 0 9 = Some (chain_block paired_clock 4)"
    by (simp add: earliest_block_not_before_def chain_block_def paired_clock_def upto_rec1)
  have "fst (findBlockByTimestamp (chain paired_clock) 104 0 9 ())
          = Some (chain_block paired_clock 4)"
    using findBlockByTimestamp_earliest[OF heights serves mono small, of 104 "()"] spec
    by (simp only:)
  then show ?thesis
    by (simp add: chain_block_def paired_clock_def)
qed

text \<open>
  The claim as stated, for every range, fails where the safety ceiling of 50 iterations
  cuts the search short. On the chain whose block \<open>n\<close> has timestamp \<open>n\<close>, over the
  range \<open>[0, 2^50 - 1]\<close> of \<open>2^50\<close> blocks and for the target \<open>2^50 - 1\<close>, the
  search returns \<open>null\<close> after its 50 probes, although the last block of the range has
  exactly the target's timestamp and is the block the specification names. All heights
  of this run are below \<open>2^52\<close>, so the numbers of the code are exact in it.
\<close>

theorem findBlockByTimestamp_large_range_counterexample:
  "fst (findBlockByTimestamp (chain height_clock) 1125899906842623 0 1125899906842623 ()) = None \<and>
   earliest_block_not_before (chain_block height_clock) 1125899906842623 0 1125899906842623
     = Some (chain_block height_clock 1125899906842623)"
proof
  show "fst (findBlockByTimestamp (chain height_clock) 1125899906842623 0 1125899906842623 ()) = None"
    by (simp add: findBlockByTimestamp_def findBlock_loop.simps retryOperation_def chain_def
          chain_block_def height_clock_def maxIterations_def Let_def)
next
  let ?T = "1125899906842623 :: int"
  let ?P = "\<lambda>b. ?T \<le> timestamp (chain_block height_clock b)"
  have split: "[0..?T] = [0..?T - 1] @ [?T]"
    by (rule upto_rec2) simp
  have none: "List.find ?P [0..?T - 1] = None"
    by (simp add: find_None_iff chain_block_def height_clock_def)
  have "List.find ?P [0..?T] = Some ?T"
    unfolding split find_append none by (simp add: chain_block_def height_clock_def)
  then show "earliest_block_not_before (chain_block height_clock) ?T 0 ?T
               = Some (chain_block height_clock ?T)"
    by (simp add: earliest_block_not_before_def)
qed

section \<open>Properties of processBlock\<close>

text \<open>The decimal string of a bigint reads back as the bigint.\<close>

lemma of_char_digit: "d < 10 \<Longrightarrow> of_char (digit_char d) = (48 + d :: nat)"
proof -
  assume "d < 10"
  then have "d \<in> {0, 1, 2, 3, 4, 5, 6, 7, 8, 9}" by auto
  then show ?thesis by (auto simp: digit_char_def)
qed

lemma decimal_nat_snoc:
  "decimal_nat (ds @ [c]) = 10 * decimal_nat ds + (of_char c - 48)"
  by (simp add: decimal_nat_def)

lemma decimal_nat_toString: "decimal_nat (nat_toString n) = n"
proof (induction n rule: nat_toString.induct)
  case (1 n)
  show ?case
  proof (cases "n < 10")
    case True
    then show ?thesis
      by (subst nat_toString.simps) (simp add: decimal_nat_def of_char_digit)
  next
    case False
    then have "decimal_nat (nat_toString n) = 10 * decimal_nat (nat_toString (n div 10)) + (of_char (digit_char (n mod 10)) - 48)"
      by (subst nat_toString.simps) (simp add: decimal_nat_snoc)
    with "1.IH"[OF False] show ?thesis by (simp add: of_char_digit)
  qed
qed

lemma nat_toString_head: "\<exists>c ds. nat_toString n = c # ds \<and> c \<noteq> CHR ''-''"
proof (induction n rule: nat_toString.induct)
  case (1 n)
  show ?case
  proof (cases "n < 10")
    case True
    have "digit_char n \<noteq> CHR ''-''"
    proof
      assume "digit_char n = CHR ''-''"
      then have "(of_char (digit_char n) :: nat) = of_char (CHR ''-'')" by simp
      with True show False by (simp add: of_char_digit)
    qed
    with True show ?thesis by (subst nat_toString.simps) simp
  next
    case False
    with "1.IH"[OF False] show ?thesis by (subst nat_toString.simps) auto
  qed
qed

lemma decimal_bigint_toString: "decimal_bigint (bigint_toString v) = v"
proof (cases "v < 0")
  case True
  then show ?thesis
    by (simp add: bigint_toString_def decimal_bigint_def decimal_nat_toString)
next
  case False
  obtain c ds where h: "nat_toString (nat v) = c # ds" "c \<noteq> CHR ''-''"
    using nat_toString_head by blast
  have "decimal_nat (c # ds) = nat v" using decimal_nat_toString[of "nat v"] h(1) by simp
  with False h show ?thesis
    by (simp add: bigint_toString_def decimal_bigint_def)
qed


lemma processBlock_loop_passes:
  assumes "\<forall>x \<in> set transfers. P x"
      and "\<And>tx :: Transaction. truthy (tx_to tx) \<Longrightarrow> tx_value tx \<noteq> 0 \<Longrightarrow> \<not> tx_value tx < minValueWei \<Longrightarrow>
             \<not> (truthy (opt_from options) \<and> toLowerCase (tx_from tx) \<noteq> toLowerCase (the (opt_from options))) \<Longrightarrow>
             \<not> (truthy (opt_to options) \<and> toLowerCase (the (tx_to tx)) \<noteq> toLowerCase (the (opt_to options))) \<Longrightarrow>
             P \<lparr>et_from = tx_from tx, et_to = tx_to tx, et_value = bigint_toString (tx_value tx),
               et_blockNumber = blockNumber, et_transactionHash = tx_hash tx,
               et_gasUsed = tx_gasLimit tx,
               et_gasPrice = (case tx_gasPrice tx of None \<Rightarrow> 0 | Some p \<Rightarrow> p)\<rparr>"
  shows "\<forall>x \<in> set (processBlock_loop options blockNumber minValueWei txs transfers). P x"
  using assms(1)
proof (induction txs arbitrary: transfers)
  case Nil
  then show ?case by simp
next
  case (Cons tx txs)
  show ?case
  proof (cases "processBlock_loop options blockNumber minValueWei (tx # txs) transfers
                = processBlock_loop options blockNumber minValueWei txs transfers")
    case True
    then show ?thesis using Cons.IH[OF Cons.prems] by simp
  next
    case False
    let ?x = "\<lparr>et_from = tx_from tx, et_to = tx_to tx, et_value = bigint_toString (tx_value tx),
               et_blockNumber = blockNumber, et_transactionHash = tx_hash tx,
               et_gasUsed = tx_gasLimit tx,
               et_gasPrice = (case tx_gasPrice tx of None \<Rightarrow> 0 | Some p \<Rightarrow> p)\<rparr>"
    from False have c: "truthy (tx_to tx)" "tx_value tx \<noteq> 0" "\<not> tx_value tx < minValueWei"
      "\<not> (truthy (opt_from options) \<and> toLowerCase (tx_from tx) \<noteq> toLowerCase (the (opt_from options)))"
      "\<not> (truthy (opt_to options) \<and> toLowerCase (the (tx_to tx)) \<noteq> toLowerCase (the (opt_to options)))"
      and eq: "processBlock_loop options blockNumber minValueWei (tx # txs) transfers
          = processBlock_loop options blockNumber minValueWei txs (transfers @ [?x])"
      by (auto split: if_splits)
    have "P ?x" using assms(2)[OF c] .
    then have "\<forall>x \<in> set (transfers @ [?x]). P x"
      using Cons.prems by simp
    from Cons.IH[OF this] eq show ?thesis by simp
  qed
qed


text \<open>
  C3. Whatever the provider, the block, the options and the threshold, every transfer
  \<open>processBlock\<close> returns has a \<open>to\<close> that is a non-empty string and not \<open>null\<close>,
  a \<open>value\<close> that is not zero (the decimal string it holds denotes a non-zero number
  and is not \<open>0\<close>) and is at least \<open>minValueWei\<close>, and, for each of the two address
  options that is set, the address equal to the option up to the case of its letters.
\<close>

theorem processBlock_transfers_pass_filters:
  "\<forall>x \<in> set (fst (processBlock getBlock blockNumber options minValueWei s)).
     (\<exists>a. et_to x = Some a \<and> a \<noteq> []) \<and>
     decimal_bigint (et_value x) \<noteq> 0 \<and> et_value x \<noteq> ''0'' \<and>
     minValueWei \<le> decimal_bigint (et_value x) \<and>
     (truthy (opt_from options) \<longrightarrow>
        toLowerCase (et_from x) = toLowerCase (the (opt_from options))) \<and>
     (truthy (opt_to options) \<longrightarrow>
        toLowerCase (the (et_to x)) = toLowerCase (the (opt_to options)))"
proof -
  let ?P = "\<lambda>x. (\<exists>a. et_to x = Some a \<and> a \<noteq> []) \<and>
     decimal_bigint (et_value x) \<noteq> 0 \<and> et_value x \<noteq> ''0'' \<and>
     minValueWei \<le> decimal_bigint (et_value x) \<and>
     (truthy (opt_from options) \<longrightarrow>
        toLowerCase (et_from x) = toLowerCase (the (opt_from options))) \<and>
     (truthy (opt_to options) \<longrightarrow>
        toLowerCase (the (et_to x)) = toLowerCase (the (opt_to options)))"
  have loop: "\<forall>x \<in> set (processBlock_loop options blockNumber minValueWei txs []). ?P x" for txs
  proof (rule processBlock_loop_passes)
    show "\<forall>x \<in> set []. ?P x" by simp
  next
    fix tx
    assume c: "truthy (tx_to tx)" "tx_value tx \<noteq> 0" "\<not> tx_value tx < minValueWei"
      "\<not> (truthy (opt_from options) \<and> toLowerCase (tx_from tx) \<noteq> toLowerCase (the (opt_from options)))"
      "\<not> (truthy (opt_to options) \<and> toLowerCase (the (tx_to tx)) \<noteq> toLowerCase (the (opt_to options)))"
    have "decimal_bigint (bigint_toString (tx_value tx)) \<noteq> 0"
      using c(2) by (simp add: decimal_bigint_toString)
    then have "bigint_toString (tx_value tx) \<noteq> ''0''"
      by (auto simp: decimal_bigint_def decimal_nat_def)
    moreover have "\<exists>a. tx_to tx = Some a \<and> a \<noteq> []"
      using c(1) by (cases "tx_to tx") (simp_all add: truthy_def)
    ultimately show "?P \<lparr>et_from = tx_from tx, et_to = tx_to tx, et_value = bigint_toString (tx_value tx),
               et_blockNumber = blockNumber, et_transactionHash = tx_hash tx,
               et_gasUsed = tx_gasLimit tx,
               et_gasPrice = (case tx_gasPrice tx of None \<Rightarrow> 0 | Some p \<Rightarrow> p)\<rparr>"
      using c by (simp add: decimal_bigint_toString)
  qed
  obtain r s' where f: "retryOperation (getBlock blockNumber) 3 1000 s = (r, s')"
    by (cases "retryOperation (getBlock blockNumber) 3 1000 s")
  show ?thesis
  proof (cases r)
    case (Inl e)
    with f show ?thesis by (simp add: processBlock_def)
  next
    case (Inr b)
    show ?thesis
    proof (cases b)
      case None
      with f Inr show ?thesis by (simp add: processBlock_def)
    next
      case (Some block)
      show ?thesis
      proof (cases "transactions block")
        case None
        with f Inr Some show ?thesis by (simp add: processBlock_def)
      next
        case txs: (Some txs)
        have "fst (processBlock getBlock blockNumber options minValueWei s)
                = processBlock_loop options blockNumber minValueWei txs []"
          using f Inr Some txs by (simp add: processBlock_def)
        then show ?thesis using loop[of txs] by (simp only:)
      qed
    qed
  qed
qed


text \<open>
  Of the five transactions of the sample block only the last one is returned: the
  others are a contract creation, a transfer of value 0, one below the threshold of
  100 and one from another sender.
\<close>

theorem processBlock_transfers_pass_filters_witness:
  "fst (processBlock (serving \<lparr>transactions = Some sample_txs\<rparr>) 17 sample_options 100 ())
     = [\<lparr>et_from = ''0xAb'', et_to = Some ''0xCd'', et_value = ''1200'', et_blockNumber = 17,
         et_transactionHash = ''0x05'', et_gasUsed = 21000, et_gasPrice = 0\<rparr>] \<and>
   decimal_bigint ''1200'' = 1200 \<and>
   toLowerCase ''0xAb'' = toLowerCase ''0xAB'' \<and> toLowerCase ''0xCd'' = toLowerCase ''0xcd''"
proof -
  have run: "fst (processBlock (serving \<lparr>transactions = Some sample_txs\<rparr>) 17 sample_options 100 ())
     = [\<lparr>et_from = ''0xAb'', et_to = Some ''0xCd'', et_value = ''1200'', et_blockNumber = 17,
         et_transactionHash = ''0x05'', et_gasUsed = 21000, et_gasPrice = 0\<rparr>]"
    by (simp add: processBlock_def retryOperation_def serving_def sample_txs_def sample_options_def
          truthy_def toLowerCase_def lower_char_def bigint_toString_def nat_toString.simps
          digit_char_def)
  have opts: "truthy (opt_from sample_options)" "truthy (opt_to sample_options)"
    by (simp_all add: sample_options_def truthy_def)
  have d: "decimal_bigint ''1200'' = 1200"
    by (simp add: decimal_bigint_def decimal_nat_def)
  show ?thesis
    using processBlock_transfers_pass_filters[of "serving \<lparr>transactions = Some sample_txs\<rparr>" 17 sample_options 100 "()"] opts d
    unfolding run
    by (simp add: sample_options_def)
qed

section \<open>Properties of the log decoding\<close>

text \<open>
  The console does not influence the run, and the loop over a list of logs is the loop
  over its first part followed by the loop over the rest.
\<close>

lemma process_logs_console:
  "process_logs ga bi sy de logs (evs, con, s) =
     (case process_logs ga bi sy de logs (evs, [], s) of (evs', con', s') \<Rightarrow> (evs', con @ con', s'))"
proof (induction logs arbitrary: evs con s)
  case Nil
  then show ?case by simp
next
  case (Cons log logs)
  obtain r w s1 where d: "decode_log ga bi sy de log s = (r, w, s1)"
    by (cases "decode_log ga bi sy de log s")
  show ?case
  proof (cases r)
    case (Inl e)
    show ?thesis
      using d Inl Cons.IH[of evs "con @ w @ [ErrorLine (''Error processing log '' @ lg_transactionHash log @ '':'') e]" s1]
        Cons.IH[of evs "w @ [ErrorLine (''Error processing log '' @ lg_transactionHash log @ '':'') e]" s1]
      by (simp split: prod.splits)
  next
    case (Inr ev)
    show ?thesis
    proof (cases ev)
      case None
      show ?thesis
        using d Inr None Cons.IH[of evs "con @ w" s1] Cons.IH[of evs w s1]
        by (simp split: prod.splits)
    next
      case (Some event)
      show ?thesis
        using d Inr Some Cons.IH[of "evs @ [event]" "con @ w" s1] Cons.IH[of "evs @ [event]" w s1]
        by (simp split: prod.splits)
    qed
  qed
qed

lemma process_logs_append:
  "process_logs ga bi sy de (xs @ ys) st = process_logs ga bi sy de ys (process_logs ga bi sy de xs st)"
proof (induction xs arbitrary: st)
  case Nil
  then show ?case by simp
next
  case (Cons log xs)
  obtain evs con s where st: "st = (evs, con, s)" by (cases st)
  obtain r w s1 where d: "decode_log ga bi sy de log s = (r, w, s1)"
    by (cases "decode_log ga bi sy de log s")
  show ?case
  proof (cases r)
    case (Inl e)
    with d show ?thesis unfolding st by (simp add: Cons.IH)
  next
    case (Inr ev)
    with d show ?thesis unfolding st by (cases ev) (simp_all add: Cons.IH)
  qed
qed

lemma malformed_step:
  assumes "length (lg_topics log) < 3 \<or> lg_data log = [] \<or> lg_data log = ''0x''"
  shows "\<exists>line. process_logs ga bi sy de [log] (evs, con, s) = (evs, con @ [line], s) \<and>
           (length (lg_topics log) < 3 \<longrightarrow>
              line = Warn (''Invalid log format for tx '' @ lg_transactionHash log)) \<and>
           (3 \<le> length (lg_topics log) \<and>
            (\<exists>a. ga (''0x'' @ drop 26 (lg_topics log ! 1)) = Inr a) \<and>
            (\<exists>a. ga (''0x'' @ drop 26 (lg_topics log ! 2)) = Inr a) \<longrightarrow>
              line = Warn (''Empty data for tx '' @ lg_transactionHash log))"
proof (cases "length (lg_topics log) < 3")
  case True
  then show ?thesis by (simp add: decode_log_def)
next
  case False
  with assms have empty: "lg_data log = [] \<or> lg_data log = ''0x''" by blast
  show ?thesis
  proof (cases "ga (''0x'' @ drop 26 (lg_topics log ! 1))")
    case (Inl e)
    with False show ?thesis by (simp add: decode_log_def)
  next
    case a1: (Inr a)
    show ?thesis
    proof (cases "ga (''0x'' @ drop 26 (lg_topics log ! 2))")
      case (Inl e)
      with False a1 show ?thesis by (simp add: decode_log_def)
    next
      case a2: (Inr b)
      with False a1 empty show ?thesis by (auto simp: decode_log_def)
    qed
  qed
qed


text \<open>
  C4. Let a log carry fewer than three topics or empty data. Processing it changes
  neither the events collected so far nor the state of the outside world, and writes
  one line to the console: the warning \<open>Invalid log format\<close> when the topics are too
  few, the warning \<open>Empty data\<close> when the topics are there and both addresses decode
  (otherwise the report of the address that did not decode). Wherever the log stands
  in the sequence, the loop returns the events and reaches the state that it returns
  and reaches without it: the logs after it are processed as before, and the loop, a
  total function, has no failing outcome.
\<close>

theorem malformed_log_is_skipped:
  assumes "length (lg_topics log) < 3 \<or> lg_data log = [] \<or> lg_data log = ''0x''"
  shows "(\<exists>line. process_logs getAddress BigInt symbol decimals [log] (transferEvents, console, s)
                   = (transferEvents, console @ [line], s) \<and>
           (length (lg_topics log) < 3 \<longrightarrow>
              line = Warn (''Invalid log format for tx '' @ lg_transactionHash log)) \<and>
           (3 \<le> length (lg_topics log) \<and>
            (\<exists>a. getAddress (''0x'' @ drop 26 (lg_topics log ! 1)) = Inr a) \<and>
            (\<exists>a. getAddress (''0x'' @ drop 26 (lg_topics log ! 2)) = Inr a) \<longrightarrow>
              line = Warn (''Empty data for tx '' @ lg_transactionHash log))) \<and>
         fst (process_logs getAddress BigInt symbol decimals (earlier @ log # later)
                (transferEvents, console, s))
           = fst (process_logs getAddress BigInt symbol decimals (earlier @ later)
                (transferEvents, console, s)) \<and>
         snd (snd (process_logs getAddress BigInt symbol decimals (earlier @ log # later)
                (transferEvents, console, s)))
           = snd (snd (process_logs getAddress BigInt symbol decimals (earlier @ later)
                (transferEvents, console, s)))"
proof -
  let ?run = "process_logs getAddress BigInt symbol decimals"
  let ?st = "(transferEvents, console, s)"
  obtain evs1 con1 s1 where pre: "?run earlier ?st = (evs1, con1, s1)"
    by (cases "?run earlier ?st")
  have "\<exists>line. ?run [log] (evs1, con1, s1) = (evs1, con1 @ [line], s1)"
    using malformed_step[OF assms, of getAddress BigInt symbol decimals evs1 con1 s1]
    by - (erule exE, erule conjE, rule exI, assumption)
  then obtain line where line: "?run [log] (evs1, con1, s1) = (evs1, con1 @ [line], s1)" ..
  have "?run (earlier @ [log] @ later) ?st = ?run later (?run [log] (?run earlier ?st))"
    by (simp only: process_logs_append)
  then have with_log: "?run (earlier @ log # later) ?st = ?run later (evs1, con1 @ [line], s1)"
    by (simp only: pre line append_Cons append_Nil)
  have without: "?run (earlier @ later) ?st = ?run later (evs1, con1, s1)"
    by (simp only: process_logs_append pre)
  obtain evs2 con2 s2 where post: "?run later (evs1, [], s1) = (evs2, con2, s2)"
    by (cases "?run later (evs1, [], s1)")
  have r1: "?run later (evs1, con1 @ [line], s1) = (evs2, (con1 @ [line]) @ con2, s2)"
    by (subst process_logs_console) (simp only: post prod.case)
  have r2: "?run later (evs1, con1, s1) = (evs2, con1 @ con2, s2)"
    by (subst process_logs_console) (simp only: post prod.case)
  have events: "fst (?run (earlier @ log # later) ?st) = fst (?run (earlier @ later) ?st)"
    by (simp only: with_log without r1 r2 fst_conv)
  have state: "snd (snd (?run (earlier @ log # later) ?st)) = snd (snd (?run (earlier @ later) ?st))"
    by (simp only: with_log without r1 r2 snd_conv)
  from malformed_step[OF assms, of getAddress BigInt symbol decimals transferEvents console s]
    events state
  show ?thesis by (intro conjI)
qed

lemma sample_topics:
  "drop 26 topic_a = ''d8da6bf26964af9d7eed9e03e53415d37aa96045''"
  "drop 26 topic_b = ''3f5ce5fbfe3e9af3971dd833d26ba9b5c936f0be''"
  by (simp_all add: topic_a_def topic_b_def)

lemma sample_addresses:
  "getAddress_length (''0x'' @ drop 26 topic_a) = Inr ''0xd8da6bf26964af9d7eed9e03e53415d37aa96045''"
  "getAddress_length (''0x'' @ drop 26 topic_b) = Inr ''0x3f5ce5fbfe3e9af3971dd833d26ba9b5c936f0be''"
  unfolding sample_topics getAddress_length_def by simp_all

lemma sample_amount:
  "BigInt_hex ''0x0de0b6b3a7640000'' = Inr 1000000000000000000"
  "bigint_toString 1000000000000000000 = ''1000000000000000000''"
  by (simp_all add: BigInt_hex_def hex_digit_def bigint_toString_def nat_toString.simps digit_char_def)

lemma good_log_fields:
  "lg_topics good_log ! 1 = topic_a" "lg_topics good_log ! 2 = topic_b"
  "length (lg_topics good_log) = 3" "lg_data good_log = ''0x0de0b6b3a7640000''"
  "lg_transactionHash good_log = ''0xt1''" "lg_address good_log = ''0xA0''"
  "lg_blockNumber good_log = 100" "lg_index good_log = 0"
  by (simp_all add: good_log_def)

lemma empty_log_fields:
  "lg_topics empty_log ! 1 = topic_b" "lg_topics empty_log ! 2 = topic_a"
  "length (lg_topics empty_log) = 3" "lg_data empty_log = ''0x''"
  "lg_transactionHash empty_log = ''0xt3''"
  by (simp_all add: empty_log_def)

lemma decode_good_log:
  "decode_log getAddress_length BigInt_hex (answering ''TKN'') (\<lambda>a. offline) good_log () =
   (Inr (Some \<lparr>contractAddress = ''0xA0'', te_from = ''0xd8da6bf26964af9d7eed9e03e53415d37aa96045'',
          te_to = ''0x3f5ce5fbfe3e9af3971dd833d26ba9b5c936f0be'', te_value = ''1000000000000000000'',
          te_blockNumber = 100, te_transactionHash = ''0xt1'', logIndex = 0,
          tokenSymbol = ''TKN'', tokenDecimals = 18\<rparr>), [], ())"
  unfolding decode_log_def good_log_fields sample_addresses sample_amount
  by (simp add: sample_amount tokenInfo_def answering_def offline_def)

lemma decode_short_log:
  "decode_log getAddress_length BigInt_hex (answering ''TKN'') (\<lambda>a. offline) short_log () =
    (Inr None, [Warn ''Invalid log format for tx 0xt2''], ())"
  unfolding decode_log_def short_log_def by simp

lemma decode_empty_log:
  "decode_log getAddress_length BigInt_hex (answering ''TKN'') (\<lambda>a. offline) empty_log () =
    (Inr None, [Warn ''Empty data for tx 0xt3''], ())"
  unfolding decode_log_def empty_log_fields sample_addresses
  by simp


text \<open>
  A transfer, a log of two topics and a log with empty data: one event, two warnings,
  and the same events as without the log of two topics.
\<close>

theorem malformed_log_is_skipped_witness:
  "process_logs getAddress_length BigInt_hex (answering ''TKN'') (\<lambda>a. offline)
       [good_log, short_log, empty_log] ([], [], ())
     = ([\<lparr>contractAddress = ''0xA0'', te_from = ''0xd8da6bf26964af9d7eed9e03e53415d37aa96045'',
          te_to = ''0x3f5ce5fbfe3e9af3971dd833d26ba9b5c936f0be'', te_value = ''1000000000000000000'',
          te_blockNumber = 100, te_transactionHash = ''0xt1'', logIndex = 0,
          tokenSymbol = ''TKN'', tokenDecimals = 18\<rparr>],
        [Warn ''Invalid log format for tx 0xt2'', Warn ''Empty data for tx 0xt3''], ()) \<and>
   fst (process_logs getAddress_length BigInt_hex (answering ''TKN'') (\<lambda>a. offline)
          [good_log, short_log, empty_log] ([], [], ()))
     = fst (process_logs getAddress_length BigInt_hex (answering ''TKN'') (\<lambda>a. offline)
          [good_log, empty_log] ([], [], ()))"
proof -
  have run: "process_logs getAddress_length BigInt_hex (answering ''TKN'') (\<lambda>a. offline)
       [good_log, short_log, empty_log] ([], [], ())
     = ([\<lparr>contractAddress = ''0xA0'', te_from = ''0xd8da6bf26964af9d7eed9e03e53415d37aa96045'',
          te_to = ''0x3f5ce5fbfe3e9af3971dd833d26ba9b5c936f0be'', te_value = ''1000000000000000000'',
          te_blockNumber = 100, te_transactionHash = ''0xt1'', logIndex = 0,
          tokenSymbol = ''TKN'', tokenDecimals = 18\<rparr>],
        [Warn ''Invalid log format for tx 0xt2'', Warn ''Empty data for tx 0xt3''], ())"
    by (simp add: decode_good_log decode_short_log decode_empty_log)
  have short: "length (lg_topics short_log) < 3 \<or> lg_data short_log = [] \<or> lg_data short_log = ''0x''"
    by (simp add: short_log_def)
  have "fst (process_logs getAddress_length BigInt_hex (answering ''TKN'') (\<lambda>a. offline)
          ([good_log] @ short_log # [empty_log]) ([], [], ()))
     = fst (process_logs getAddress_length BigInt_hex (answering ''TKN'') (\<lambda>a. offline)
          ([good_log] @ [empty_log]) ([], [], ()))"
    using malformed_log_is_skipped[OF short, of getAddress_length BigInt_hex "answering ''TKN''" "\<lambda>a. offline"
        "[]" "[]" "()" "[good_log]" "[empty_log]"]
    by (elim conjE)
  then have "fst (process_logs getAddress_length BigInt_hex (answering ''TKN'') (\<lambda>a. offline)
          [good_log, short_log, empty_log] ([], [], ()))
     = fst (process_logs getAddress_length BigInt_hex (answering ''TKN'') (\<lambda>a. offline)
          [good_log, empty_log] ([], [], ()))"
    by (simp only: append_Cons append_Nil)
  with run show ?thesis by (rule conjI)
qed

section \<open>Properties of the statistics\<close>

lemma map_of_map_set: "map_of (map_set m k v) k' = (if k' = k then Some v else map_of m k')"
  by (induction m) auto

lemma keys_map_set: "fst ` set (map_set m k v) = insert k (fst ` set m)"
proof (induction m)
  case Nil
  then show ?case by simp
next
  case (Cons p m)
  obtain k' v' where p: "p = (k', v')" by (cases p)
  show ?case
  proof (cases "k' = k")
    case True
    with p show ?thesis by simp
  next
    case False
    with p Cons.IH show ?thesis by (simp add: insert_commute)
  qed
qed

lemma distinct_map_set: "distinct (map fst m) \<Longrightarrow> distinct (map fst (map_set m k v))"
  by (induction m) (auto simp: keys_map_set)

lemma volume_of_map_set:
  "volume_of (map_set m k v) k' = (if k' = k then v else volume_of m k')"
  by (simp add: volume_of_def map_of_map_set)

lemma map_of_volume_of: "k \<in> fst ` set m \<Longrightarrow> map_of m k = Some (volume_of m k)"
  by (cases "map_of m k") (auto simp: volume_of_def map_of_eq_None_iff)

lemma tokenVolumes_loop_sums:
  "tokenVolumes_loop BigInt events m = Inr m' \<Longrightarrow>
     fst ` set m' = fst ` set m \<union> token_key ` set events \<and>
     (\<forall>k. volume_of m' k =
            volume_of m k +
            sum_list (map (\<lambda>e. read_value BigInt (te_value e))
                          (filter (\<lambda>e. token_key e = k) events)))"
proof (induction events arbitrary: m)
  case Nil
  then show ?case by simp
next
  case (Cons event events)
  from Cons.prems obtain v where v: "BigInt (te_value event) = Inr v"
    by (cases "BigInt (te_value event)") (simp_all add: Let_def)
  let ?m1 = "map_set m (token_key event) (volume_of m (token_key event) + v)"
  have rest: "tokenVolumes_loop BigInt events ?m1 = Inr m'"
    using Cons.prems v by (simp add: Let_def volume_of_def)
  have rv: "read_value BigInt (te_value event) = v"
    using v by (simp add: read_value_def)
  from Cons.IH[OF rest] show ?case
    by (auto simp: keys_map_set volume_of_map_set rv)
qed

lemma stats_of_map_set:
  "stats_of (map_set m k st) k' = (if k' = k then st else stats_of m k')"
  by (simp add: stats_of_def map_of_map_set)

lemma map_of_stats_of: "k \<in> fst ` set m \<Longrightarrow> map_of m k = Some (stats_of m k)"
  by (cases "map_of m k") (auto simp: stats_of_def map_of_eq_None_iff)

lemma tokenStats_loop_groups:
  "tokenStats_loop BigInt rows m = Inr m' \<Longrightarrow> distinct (map fst m) \<Longrightarrow>
     distinct (map fst m') \<and>
     fst ` set m' = fst ` set m \<union> row_symbol ` set rows \<and>
     (\<forall>k. ts_count (stats_of m' k) =
            ts_count (stats_of m k) + int (length (filter (\<lambda>r. row_symbol r = k) rows)) \<and>
          ts_volume (stats_of m' k) =
            ts_volume (stats_of m k) +
            sum_list (map (\<lambda>r. read_value BigInt (or_default (row_value r) ''0''))
                          (filter (\<lambda>r. row_symbol r = k) rows)) \<and>
          ts_contracts (stats_of m' k) =
            ts_contracts (stats_of m k) \<union>
            row_contractAddress ` {r \<in> set rows. row_symbol r = k})"
proof (induction rows arbitrary: m)
  case Nil
  then show ?case by simp
next
  case (Cons row rows)
  let ?token = "row_symbol row"
  from Cons.prems(1) obtain v where v: "BigInt (or_default (row_value row) ''0'') = Inr v"
    by (cases "BigInt (or_default (row_value row) ''0'')") (simp_all add: Let_def)
  define m1 where "m1 = (if map_of m ?token = None then
                    map_set m ?token \<lparr>ts_count = 0, ts_volume = 0, ts_contracts = {}\<rparr>
                  else m)"
  define st where "st = the (map_of m1 ?token)"
  define m2 where "m2 = map_set m1 ?token
                   \<lparr>ts_count = ts_count st + 1, ts_volume = ts_volume st + v,
                    ts_contracts = insert (row_contractAddress row) (ts_contracts st)\<rparr>"
  have "tokenStats_loop BigInt (row # rows) m = tokenStats_loop BigInt rows m2"
    unfolding m2_def st_def m1_def row_symbol_def
    by (simp only: tokenStats_loop.simps Let_def v sum.case)
  with Cons.prems(1) have rest: "tokenStats_loop BigInt rows m2 = Inr m'"
    by simp
  have st: "st = stats_of m ?token"
    by (cases "map_of m ?token") (simp_all add: st_def m1_def stats_of_def map_of_map_set)
  have other: "stats_of m1 k = stats_of m k" for k
    by (cases "map_of m ?token") (auto simp: m1_def stats_of_def map_of_map_set)
  have m2: "stats_of m2 k = (if k = ?token then
                \<lparr>ts_count = ts_count (stats_of m ?token) + 1,
                 ts_volume = ts_volume (stats_of m ?token) + v,
                 ts_contracts = insert (row_contractAddress row) (ts_contracts (stats_of m ?token))\<rparr>
              else stats_of m k)" for k
    by (simp add: m2_def stats_of_map_set other st)
  have keys: "fst ` set m2 = insert ?token (fst ` set m)"
    by (auto simp: m2_def m1_def keys_map_set)
  have dist: "distinct (map fst m2)"
    using Cons.prems(2) by (simp add: m2_def m1_def distinct_map_set)
  have rv: "read_value BigInt (or_default (row_value row) ''0'') = v"
    using v by (simp add: read_value_def)
  from Cons.IH[OF rest dist] show ?case
    by (auto simp: keys m2 rv)
qed


text \<open>
  C7, as the code has it. In the \<open>fetch\<close> summary the key is made of the symbol and
  the contract address: two events with the same symbol and different contract
  addresses have different keys, and each key holds the sum of the values of the
  events with that key. In the \<open>analyze\<close> command the key is the symbol alone: the map
  has one entry per symbol, two rows with the same symbol are counted in the same
  entry whatever their contract addresses are, and the entry's set of contracts holds
  the addresses of both.
\<close>

theorem token_grouping_keys:
  "(tokenVolumes BigInt transferEvents = Inr volumes \<and>
    e1 \<in> set transferEvents \<and> e2 \<in> set transferEvents \<and>
    tokenSymbol e1 = tokenSymbol e2 \<and> contractAddress e1 \<noteq> contractAddress e2 \<longrightarrow>
      token_key e1 \<noteq> token_key e2 \<and>
      map_of volumes (token_key e1) =
        Some (sum_list (map (\<lambda>e. read_value BigInt (te_value e))
                            (filter (\<lambda>e. token_key e = token_key e1) transferEvents))) \<and>
      map_of volumes (token_key e2) =
        Some (sum_list (map (\<lambda>e. read_value BigInt (te_value e))
                            (filter (\<lambda>e. token_key e = token_key e2) transferEvents)))) \<and>
   (tokenStats BigInt data = Inr stats \<and> r1 \<in> set data \<and> r2 \<in> set data \<and>
    row_symbol r1 = row_symbol r2 \<longrightarrow>
      distinct (map fst stats) \<and>
      (\<exists>entry. map_of stats (row_symbol r1) = Some entry \<and>
               map_of stats (row_symbol r2) = Some entry \<and>
               row_contractAddress r1 \<in> ts_contracts entry \<and>
               row_contractAddress r2 \<in> ts_contracts entry \<and>
               ts_count entry = int (length (filter (\<lambda>r. row_symbol r = row_symbol r1) data))))"
proof (intro conjI impI)
  assume a: "tokenVolumes BigInt transferEvents = Inr volumes \<and>
    e1 \<in> set transferEvents \<and> e2 \<in> set transferEvents \<and>
    tokenSymbol e1 = tokenSymbol e2 \<and> contractAddress e1 \<noteq> contractAddress e2"
  then have run: "tokenVolumes_loop BigInt transferEvents [] = Inr volumes"
    by (simp add: tokenVolumes_def)
  note inv = tokenVolumes_loop_sums[OF run]
  show "token_key e1 \<noteq> token_key e2"
    using a by (simp add: token_key_def)
  have vol: "map_of volumes (token_key e) =
        Some (sum_list (map (\<lambda>e. read_value BigInt (te_value e))
                            (filter (\<lambda>e'. token_key e' = token_key e) transferEvents)))"
    if "e \<in> set transferEvents" for e
  proof -
    have "token_key e \<in> fst ` set volumes" using inv that by simp
    from map_of_volume_of[OF this] inv show ?thesis by (simp add: volume_of_def)
  qed
  show "map_of volumes (token_key e1) =
        Some (sum_list (map (\<lambda>e. read_value BigInt (te_value e))
                            (filter (\<lambda>e. token_key e = token_key e1) transferEvents)))"
    using vol[of e1] a by simp
  show "map_of volumes (token_key e2) =
        Some (sum_list (map (\<lambda>e. read_value BigInt (te_value e))
                            (filter (\<lambda>e. token_key e = token_key e2) transferEvents)))"
    using vol[of e2] a by simp
next
  assume b: "tokenStats BigInt data = Inr stats \<and> r1 \<in> set data \<and> r2 \<in> set data \<and>
    row_symbol r1 = row_symbol r2"
  then have run: "tokenStats_loop BigInt data [] = Inr stats"
    by (simp add: tokenStats_def)
  have inv: "distinct (map fst stats)" "fst ` set stats = row_symbol ` set data"
    "\<And>k. ts_count (stats_of stats k) = int (length (filter (\<lambda>r. row_symbol r = k) data))"
    "\<And>k. ts_contracts (stats_of stats k) = row_contractAddress ` {r \<in> set data. row_symbol r = k}"
    using tokenStats_loop_groups[OF run] by (simp_all add: stats_of_def)
  show "distinct (map fst stats)" by (rule inv(1))
  have key: "row_symbol r1 \<in> fst ` set stats" using inv(2) b by simp
  have "map_of stats (row_symbol r1) = Some (stats_of stats (row_symbol r1))"
    by (rule map_of_stats_of[OF key])
  moreover have "row_contractAddress r1 \<in> ts_contracts (stats_of stats (row_symbol r1))"
    using inv(4)[of "row_symbol r1"] b by simp
  moreover have "row_contractAddress r2 \<in> ts_contracts (stats_of stats (row_symbol r1))"
    using inv(4)[of "row_symbol r1"] b by simp
  ultimately show "\<exists>entry. map_of stats (row_symbol r1) = Some entry \<and>
               map_of stats (row_symbol r2) = Some entry \<and>
               row_contractAddress r1 \<in> ts_contracts entry \<and>
               row_contractAddress r2 \<in> ts_contracts entry \<and>
               ts_count entry = int (length (filter (\<lambda>r. row_symbol r = row_symbol r1) data))"
    using inv(3)[of "row_symbol r1"] b by simp
qed


theorem token_grouping_keys_witness:
  "tokenVolumes BigInt_decimal [usdc_event ''0xA1'' ''10'', usdc_event ''0xB2'' ''20'']
     = Inr [(''USDC (0xA1)'', 10), (''USDC (0xB2)'', 20)] \<and>
   token_key (usdc_event ''0xA1'' ''10'') = ''USDC (0xA1)'' \<and>
   token_key (usdc_event ''0xB2'' ''20'') = ''USDC (0xB2)'' \<and>
   tokenStats BigInt_decimal [usdc_row ''0xA1'' ''10'', usdc_row ''0xB2'' ''20'']
     = Inr [(''USDC'', \<lparr>ts_count = 2, ts_volume = 30,
                          ts_contracts = {Some ''0xA1'', Some ''0xB2''}\<rparr>)] \<and>
   row_symbol (usdc_row ''0xA1'' ''10'') = ''USDC'' \<and> row_symbol (usdc_row ''0xB2'' ''20'') = ''USDC''"
proof -
  have v: "tokenVolumes BigInt_decimal [usdc_event ''0xA1'' ''10'', usdc_event ''0xB2'' ''20'']
     = Inr [(''USDC (0xA1)'', 10), (''USDC (0xB2)'', 20)]"
    by (simp add: tokenVolumes_def token_key_def usdc_event_def BigInt_decimal_def
          decimal_bigint_def decimal_nat_def Let_def)
  have k: "token_key (usdc_event ''0xA1'' ''10'') = ''USDC (0xA1)''"
    "token_key (usdc_event ''0xB2'' ''20'') = ''USDC (0xB2)''"
    by (simp_all add: token_key_def usdc_event_def)
  have s: "tokenStats BigInt_decimal [usdc_row ''0xA1'' ''10'', usdc_row ''0xB2'' ''20'']
     = Inr [(''USDC'', \<lparr>ts_count = 2, ts_volume = 30,
                          ts_contracts = {Some ''0xA1'', Some ''0xB2''}\<rparr>)]"
    by (simp add: tokenStats_def usdc_row_def or_default_def truthy_def BigInt_decimal_def
          decimal_bigint_def decimal_nat_def Let_def insert_commute)
  have r: "row_symbol (usdc_row ''0xA1'' ''10'') = ''USDC''"
    "row_symbol (usdc_row ''0xB2'' ''20'') = ''USDC''"
    by (simp_all add: row_symbol_def usdc_row_def or_default_def truthy_def)
  have d: "contractAddress (usdc_event ''0xA1'' ''10'') \<noteq> contractAddress (usdc_event ''0xB2'' ''20'')"
    "tokenSymbol (usdc_event ''0xA1'' ''10'') = tokenSymbol (usdc_event ''0xB2'' ''20'')"
    by (simp_all add: usdc_event_def)
  show ?thesis
    using token_grouping_keys[of BigInt_decimal "[usdc_event ''0xA1'' ''10'', usdc_event ''0xB2'' ''20'']"
        "[(''USDC (0xA1)'', 10), (''USDC (0xB2)'', 20)]"
        "usdc_event ''0xA1'' ''10''" "usdc_event ''0xB2'' ''20''"
        "[usdc_row ''0xA1'' ''10'', usdc_row ''0xB2'' ''20'']"
        "[(''USDC'', \<lparr>ts_count = 2, ts_volume = 30,
                          ts_contracts = {Some ''0xA1'', Some ''0xB2''}\<rparr>)]"
        "usdc_row ''0xA1'' ''10''" "usdc_row ''0xB2'' ''20''"]
      v k s r d
    by simp
qed


text \<open>
  The claim as stated, for the \<open>analyze\<close> command: two rows with the symbol \<open>USDC\<close> at
  the contracts \<open>0xA1\<close> and \<open>0xB2\<close> are counted under the single key \<open>USDC\<close>.
\<close>

theorem analyze_groups_by_symbol_counterexample:
  "tokenStats BigInt_decimal [usdc_row ''0xA1'' ''10'', usdc_row ''0xB2'' ''20'']
     = Inr [(''USDC'', \<lparr>ts_count = 2, ts_volume = 30,
                          ts_contracts = {Some ''0xA1'', Some ''0xB2''}\<rparr>)] \<and>
   row_tokenSymbol (usdc_row ''0xA1'' ''10'') = row_tokenSymbol (usdc_row ''0xB2'' ''20'') \<and>
   row_contractAddress (usdc_row ''0xA1'' ''10'') = Some ''0xA1'' \<and>
   row_contractAddress (usdc_row ''0xB2'' ''20'') = Some ''0xB2''"
proof -
  have "tokenStats BigInt_decimal [usdc_row ''0xA1'' ''10'', usdc_row ''0xB2'' ''20'']
     = Inr [(''USDC'', \<lparr>ts_count = 2, ts_volume = 30,
                          ts_contracts = {Some ''0xA1'', Some ''0xB2''}\<rparr>)]"
    by (simp add: tokenStats_def usdc_row_def or_default_def truthy_def BigInt_decimal_def
          decimal_bigint_def decimal_nat_def Let_def insert_commute)
  then show ?thesis by (simp add: usdc_row_def)
qed


section \<open>Properties of the rankings\<close>

text \<open>
  C8. The comparator answers \<open>-1\<close> for two entries of equal volume in either order;
  it never answers 0. On two tokens of the same volume 5, first seen in the order
  \<open>AAA\<close>, \<open>BBB\<close>, the ranking computed with V8's sort lists \<open>BBB\<close> before \<open>AAA\<close>,
  in \<open>fetch\<close> and in \<open>analyze\<close> alike: the entries of equal volume do not keep their
  first-seen order.
\<close>

theorem ranking_reverses_equal_volumes:
  "tokenVolumes BigInt_decimal [token_event ''AAA'' ''0x01'' ''5'', token_event ''BBB'' ''0x02'' ''5'']
     = Inr [(''AAA (0x01)'', 5), (''BBB (0x02)'', 5)] \<and>
   topTokens v8_sort_short [(''AAA (0x01)'', 5), (''BBB (0x02)'', 5)]
     = [(''BBB (0x02)'', 5), (''AAA (0x01)'', 5)] \<and>
   by_volume (''AAA (0x01)'', 5) (''BBB (0x02)'', 5) = - 1 \<and>
   by_volume (''BBB (0x02)'', 5) (''AAA (0x01)'', 5) = - 1 \<and>
   sortedTokens v8_sort_short 10
       [(''AAA'', \<lparr>ts_count = 1, ts_volume = 5, ts_contracts = {Some ''0x01''}\<rparr>),
        (''BBB'', \<lparr>ts_count = 1, ts_volume = 5, ts_contracts = {Some ''0x02''}\<rparr>)]
     = [(''BBB'', \<lparr>ts_count = 1, ts_volume = 5, ts_contracts = {Some ''0x02''}\<rparr>),
        (''AAA'', \<lparr>ts_count = 1, ts_volume = 5, ts_contracts = {Some ''0x01''}\<rparr>)]"
proof (intro conjI)
  show "tokenVolumes BigInt_decimal [token_event ''AAA'' ''0x01'' ''5'', token_event ''BBB'' ''0x02'' ''5'']
     = Inr [(''AAA (0x01)'', 5), (''BBB (0x02)'', 5)]"
    by (simp add: tokenVolumes_def token_key_def token_event_def BigInt_decimal_def
          decimal_bigint_def decimal_nat_def Let_def)
  show "topTokens v8_sort_short [(''AAA (0x01)'', 5), (''BBB (0x02)'', 5)]
     = [(''BBB (0x02)'', 5), (''AAA (0x01)'', 5)]"
    by (simp add: topTokens_def v8_sort_short_def by_volume_def)
  show "by_volume (''AAA (0x01)'', 5) (''BBB (0x02)'', 5) = - 1"
    by (simp add: by_volume_def)
  show "by_volume (''BBB (0x02)'', 5) (''AAA (0x01)'', 5) = - 1"
    by (simp add: by_volume_def)
  show "sortedTokens v8_sort_short 10
       [(''AAA'', \<lparr>ts_count = 1, ts_volume = 5, ts_contracts = {Some ''0x01''}\<rparr>),
        (''BBB'', \<lparr>ts_count = 1, ts_volume = 5, ts_contracts = {Some ''0x02''}\<rparr>)]
     = [(''BBB'', \<lparr>ts_count = 1, ts_volume = 5, ts_contracts = {Some ''0x02''}\<rparr>),
        (''AAA'', \<lparr>ts_count = 1, ts_volume = 5, ts_contracts = {Some ''0x01''}\<rparr>)]"
    by (simp add: sortedTokens_def slice0_def v8_sort_short_def by_stats_volume_def)
qed

end
